theory Spec2Isabelle
  imports Complex_Main "HOL-Library.AList" "HOL-Library.Log_Nat"
begin

section \<open>The platform functions the source calls\<close>

subsection \<open>JavaScript strings\<close>

text \<open>
  A JavaScript string is a sequence of UTF-16 code units. A code unit is modelled by its
  number, so that the units above 255, which \<^verbatim>\<open>btoa\<close> refuses, exist in the model.
  \<open>js\<close> turns an ASCII literal of the source into its code units.
\<close>

type_synonym jsstring = "nat list"

definition js :: "string \<Rightarrow> jsstring" where
  "js s = map of_char s"

subsection \<open>\<^verbatim>\<open>btoa\<close> and \<^verbatim>\<open>atob\<close>\<close>

text \<open>
  \<^verbatim>\<open>btoa\<close> throws \<^verbatim>\<open>InvalidCharacterError\<close> (here \<open>None\<close>) when a code unit is
  above 255; otherwise it writes each group of three bytes as four characters of the
  base64 alphabet and pads the last group with \<^verbatim>\<open>=\<close> (code unit 61).
\<close>

definition b64_char :: "nat \<Rightarrow> nat" where
  "b64_char v = (if v < 26 then 65 + v else if v < 52 then 71 + v
                 else if v < 62 then v - 4 else if v = 62 then 43 else 47)"

fun sextets :: "nat list \<Rightarrow> nat list" where
  "sextets (a # b # c # rest) =
     [a div 4, (a mod 4) * 16 + b div 16, (b mod 16) * 4 + c div 64, c mod 64] @ sextets rest"
| "sextets [a, b] = [a div 4, (a mod 4) * 16 + b div 16, (b mod 16) * 4]"
| "sextets [a] = [a div 4, (a mod 4) * 16]"
| "sextets [] = []"

definition padding :: "nat \<Rightarrow> nat list" where
  "padding n = replicate ((3 - n mod 3) mod 3) 61"

definition base64 :: "nat list \<Rightarrow> jsstring" where
  "base64 s = map b64_char (sextets s) @ padding (length s)"

definition btoa :: "jsstring \<Rightarrow> jsstring option" where
  "btoa s = (if list_all (\<lambda>c. c \<le> 255) s then Some (base64 s) else None)"

text \<open>
  \<^verbatim>\<open>atob\<close> is the forgiving base64 decoder: it drops ASCII whitespace, drops one or two
  trailing \<^verbatim>\<open>=\<close> when the length is a multiple of four, fails on a length that leaves
  the remainder one and on any character outside the alphabet, and discards the unused
  low bits of a last group of two or three characters. Failure (\<open>None\<close>) is the
  exception \<^verbatim>\<open>InvalidCharacterError\<close>.
\<close>

definition b64_index :: "nat \<Rightarrow> nat option" where
  "b64_index c = (if 65 \<le> c \<and> c \<le> 90 then Some (c - 65)
                  else if 97 \<le> c \<and> c \<le> 122 then Some (c - 71)
                  else if 48 \<le> c \<and> c \<le> 57 then Some (c + 4)
                  else if c = 43 then Some 62
                  else if c = 47 then Some 63 else None)"

definition ascii_whitespace :: "nat \<Rightarrow> bool" where
  "ascii_whitespace c \<longleftrightarrow> c = 9 \<or> c = 10 \<or> c = 12 \<or> c = 13 \<or> c = 32"

definition strip_padding :: "nat list \<Rightarrow> nat list" where
  "strip_padding d =
     (if length d mod 4 = 0 \<and> d \<noteq> [] \<and> last d = 61
      then (if last (butlast d) = 61 then butlast (butlast d) else butlast d)
      else d)"

fun octets :: "nat list \<Rightarrow> nat list option" where
  "octets (p # q # r # s # rest) =
     map_option (\<lambda>bs. [p * 4 + q div 16, (q mod 16) * 16 + r div 4, (r mod 4) * 64 + s] @ bs)
       (octets rest)"
| "octets [p, q, r] = Some [p * 4 + q div 16, (q mod 16) * 16 + r div 4]"
| "octets [p, q] = Some [p * 4 + q div 16]"
| "octets [p] = None"
| "octets [] = Some []"

definition atob :: "jsstring \<Rightarrow> jsstring option" where
  "atob s =
     (let d = strip_padding (filter (\<lambda>c. \<not> ascii_whitespace c) s)
      in case those (map b64_index d) of None \<Rightarrow> None | Some v \<Rightarrow> octets v)"

subsection \<open>Numbers\<close>

text \<open>
  A JavaScript number is an IEEE 754 double: \<^verbatim>\<open>NaN\<close>, an infinity, or a finite
  double, which is given by the rational it equals (the two zeros are not told apart:
  no comparison or arithmetic of this code distinguishes them).
\<close>

datatype jsnumber = Num rat | NaN | PosInfinity | NegInfinity

text \<open>
  \<open>double x\<close> is the number nearest to the rational \<open>x\<close>, ties to even: the rounding of
  a numeral by \<^verbatim>\<open>JSON.parse\<close> and of the exact result of \<^verbatim>\<open>-\<close> and \<^verbatim>\<open>/\<close> on
  finite numbers. For \<open>2\<^sup>e \<le> \<bar>x\<bar> < 2\<^sup>e\<^sup>+\<^sup>1\<close> the doubles around \<open>x\<close> are the
  multiples of \<open>2\<^sup>e\<^sup>-\<^sup>5\<^sup>2\<close> (53 significant bits), of \<open>2\<^sup>-\<^sup>1\<^sup>0\<^sup>7\<^sup>4\<close> in the subnormal
  range; a result of magnitude \<open>2\<^sup>1\<^sup>0\<^sup>2\<^sup>4\<close> or more is an infinity.
\<close>

definition floor_log2 :: "rat \<Rightarrow> int" where
  "floor_log2 a = (if 1 \<le> a then bitlen \<lfloor>a\<rfloor> - 1 else - bitlen (\<lceil>1 / a\<rceil> - 1))"

definition round_half_even :: "rat \<Rightarrow> int" where
  "round_half_even x =
     (let f = \<lfloor>x\<rfloor>; r = x - of_int f
      in if r < 1 / 2 then f else if 1 / 2 < r then f + 1 else if even f then f else f + 1)"

definition double :: "rat \<Rightarrow> jsnumber" where
  "double x =
     (if x = 0 then Num 0
      else let a = \<bar>x\<bar>;
               p = max (floor_log2 a - 52) (- 1074);
               y = of_int (round_half_even (a / 2 powi p)) * 2 powi p
           in if 2 ^ 1024 \<le> y then (if 0 < x then PosInfinity else NegInfinity)
              else Num (if 0 < x then y else - y))"

subsection \<open>JSON values\<close>

text \<open>
  What \<^verbatim>\<open>JSON.parse\<close> can return. A number is a double (never \<^verbatim>\<open>NaN\<close> from
  \<^verbatim>\<open>JSON.parse\<close>). An object is the list of its properties, with one entry for each
  name, in the order in which they were created (only lookups depend on it, and they do
  not depend on the order); \<^verbatim>\<open>undefined\<close> is not a JSON value and appears as
  \<open>None\<close> where a property is read.
\<close>

datatype jsval =
  JNull | JBool bool | JNum jsnumber | JStr jsstring | JArr "jsval list"
  | JObj "(jsstring \<times> jsval) list"

type_synonym jsobject = "(jsstring \<times> jsval) list"

subsection \<open>\<^verbatim>\<open>JSON.parse\<close>: the lexer\<close>

datatype json_token = LBrace | RBrace | LBracket | RBracket | Colon | Comma | Lit jsval

definition json_whitespace :: "nat \<Rightarrow> bool" where
  "json_whitespace c \<longleftrightarrow> c = 32 \<or> c = 9 \<or> c = 10 \<or> c = 13"

definition is_digit :: "nat \<Rightarrow> bool" where
  "is_digit c \<longleftrightarrow> 48 \<le> c \<and> c \<le> 57"

definition hex_value :: "nat \<Rightarrow> nat option" where
  "hex_value c = (if 48 \<le> c \<and> c \<le> 57 then Some (c - 48)
                  else if 97 \<le> c \<and> c \<le> 102 then Some (c - 87)
                  else if 65 \<le> c \<and> c \<le> 70 then Some (c - 55) else None)"

definition unescape :: "nat \<Rightarrow> nat option" where
  "unescape e = (if e = 34 then Some 34 else if e = 92 then Some 92 else if e = 47 then Some 47
                 else if e = 98 then Some 8 else if e = 102 then Some 12
                 else if e = 110 then Some 10 else if e = 114 then Some 13
                 else if e = 116 then Some 9 else None)"

definition hex4 :: "nat list \<Rightarrow> nat option" where
  "hex4 hs = (case map hex_value hs of
       [Some a, Some b, Some c, Some d] \<Rightarrow> Some (((a * 16 + b) * 16 + c) * 16 + d)
     | _ \<Rightarrow> None)"

text \<open>
  \<open>lex_string\<close> reads a string after its opening quote (34): up to the closing quote,
  with the escapes after a backslash (92) and no raw control character.
\<close>

function lex_string :: "nat list \<Rightarrow> (jsstring \<times> nat list) option" where
  "lex_string [] = None"
| "lex_string (c # cs) =
     (if c = 34 then Some ([], cs)
      else if c = 92 then
        (case cs of
           [] \<Rightarrow> None
         | e # cs' \<Rightarrow>
             if e = 117 then
               (case hex4 (take 4 cs') of
                  None \<Rightarrow> None
                | Some u \<Rightarrow> map_option (apfst ((#) u)) (lex_string (drop 4 cs')))
             else
               (case unescape e of
                  None \<Rightarrow> None
                | Some u \<Rightarrow> map_option (apfst ((#) u)) (lex_string cs')))
      else if c < 32 then None
      else map_option (apfst ((#) c)) (lex_string cs))"
  by pat_completeness auto
termination
  by (relation "measure length") auto

text \<open>
  A number: an optional minus, an integer part without a leading zero, an optional
  fraction and an optional exponent. Its value is the double nearest to the rational
  that the numeral denotes.
\<close>

definition digits_value :: "nat list \<Rightarrow> nat" where
  "digits_value ds = foldl (\<lambda>acc d. acc * 10 + (d - 48)) 0 ds"

definition lex_int :: "nat list \<Rightarrow> (nat list \<times> nat list) option" where
  "lex_int cs = (case cs of
       [] \<Rightarrow> None
     | d # r \<Rightarrow> if d = 48 then Some ([d], r)
               else if is_digit d then Some (takeWhile is_digit cs, dropWhile is_digit cs)
               else None)"

definition lex_frac :: "nat list \<Rightarrow> (nat list \<times> nat list) option" where
  "lex_frac cs = (case cs of
       [] \<Rightarrow> Some ([], cs)
     | d # r \<Rightarrow> if d = 46 then
                 (if takeWhile is_digit r = [] then None
                  else Some (takeWhile is_digit r, dropWhile is_digit r))
               else Some ([], cs))"

definition lex_exp :: "nat list \<Rightarrow> (rat \<times> nat list) option" where
  "lex_exp cs = (case cs of
       [] \<Rightarrow> Some (1, cs)
     | e # r \<Rightarrow>
         if e = 101 \<or> e = 69 then
           (let neg = (case r of [] \<Rightarrow> False | s # _ \<Rightarrow> s = 45);
                r' = (case r of [] \<Rightarrow> r | s # r'' \<Rightarrow> if s = 45 \<or> s = 43 then r'' else r);
                ds = takeWhile is_digit r'
            in if ds = [] then None
               else Some (if neg then 1 / 10 ^ digits_value ds else 10 ^ digits_value ds,
                          dropWhile is_digit r'))
         else Some (1, cs))"

definition lex_number :: "nat list \<Rightarrow> (jsnumber \<times> nat list) option" where
  "lex_number cs =
     (let neg = (case cs of [] \<Rightarrow> False | s # _ \<Rightarrow> s = 45);
          cs1 = (if neg then tl cs else cs)
      in case lex_int cs1 of
           None \<Rightarrow> None
         | Some (ip, cs2) \<Rightarrow>
             (case lex_frac cs2 of
                None \<Rightarrow> None
              | Some (fp, cs3) \<Rightarrow>
                  (case lex_exp cs3 of
                     None \<Rightarrow> None
                   | Some (scale, cs4) \<Rightarrow>
                       Some (double ((if neg then - 1 else 1)
                                     * (of_nat (digits_value (ip @ fp)) / 10 ^ length fp)
                                     * scale),
                             cs4))))"

text \<open>Both sub-lexers consume input, which is what makes the lexer terminate.\<close>

lemma lex_string_length: "lex_string cs = Some (s, rest) \<Longrightarrow> length rest < length cs"
proof (induction cs arbitrary: s rest rule: lex_string.induct)
  case 1
  then show ?case by simp
next
  case (2 c cs)
  show ?case
  proof (cases "c = 34")
    case True
    with "2.prems" show ?thesis by simp
  next
    case notq: False
    show ?thesis
    proof (cases "c = 92")
      case False
      with notq "2.prems" obtain s' where "lex_string cs = Some (s', rest)"
        by (auto split: if_splits)
      with "2.IH"(3) [OF notq False] "2.prems" notq False show ?thesis
        by (fastforce split: if_splits)
    next
      case bs: True
      then obtain e cs' where cs: "cs = e # cs'"
        using "2.prems" by (cases cs) auto
      show ?thesis
      proof (cases "e = 117")
        case True
        with bs cs "2.prems" obtain u s' where
          "hex4 (take 4 cs') = Some u" "lex_string (drop 4 cs') = Some (s', rest)"
          by (auto split: option.splits)
        with "2.IH"(1) [OF notq bs cs True] show ?thesis
          using cs by fastforce
      next
        case False
        with bs cs "2.prems" obtain u s' where
          "unescape e = Some u" "lex_string cs' = Some (s', rest)"
          by (auto split: option.splits)
        with "2.IH"(2) [OF notq bs cs False] show ?thesis
          using cs by fastforce
      qed
    qed
  qed
qed

lemma lex_int_length: "lex_int cs = Some (ip, rest) \<Longrightarrow> length rest < length cs"
  by (auto simp: lex_int_def less_Suc_eq_le length_dropWhile_le split: list.splits if_splits)

lemma lex_frac_length: "lex_frac cs = Some (fp, rest) \<Longrightarrow> length rest \<le> length cs"
  by (auto simp: lex_frac_def le_SucI length_dropWhile_le split: list.splits if_splits)

lemma lex_exp_length: "lex_exp cs = Some (sc, rest) \<Longrightarrow> length rest \<le> length cs"
  by (auto simp: lex_exp_def Let_def le_SucI length_dropWhile_le
      intro: le_trans [OF length_dropWhile_le]
      split: list.splits if_splits)

lemma lex_number_length: "lex_number cs = Some (x, rest) \<Longrightarrow> length rest < length cs"
proof -
  assume a: "lex_number cs = Some (x, rest)"
  define cs1 where "cs1 = (if (case cs of [] \<Rightarrow> False | s # _ \<Rightarrow> s = 45) then tl cs else cs)"
  have l1: "length cs1 \<le> length cs"
    by (simp add: cs1_def)
  from a obtain ip cs2 fp cs3 sc where
    "lex_int cs1 = Some (ip, cs2)" "lex_frac cs2 = Some (fp, cs3)"
    "lex_exp cs3 = Some (sc, rest)"
    unfolding lex_number_def Let_def cs1_def [symmetric]
    by (auto split: option.splits)
  then show ?thesis
    using l1 lex_int_length lex_frac_length lex_exp_length
    by (meson le_trans less_le_trans not_le)
qed

function tokenize :: "nat list \<Rightarrow> json_token list option" where
  "tokenize [] = Some []"
| "tokenize (c # cs) =
     (if json_whitespace c then tokenize cs
      else if c = 123 then map_option ((#) LBrace) (tokenize cs)
      else if c = 125 then map_option ((#) RBrace) (tokenize cs)
      else if c = 91 then map_option ((#) LBracket) (tokenize cs)
      else if c = 93 then map_option ((#) RBracket) (tokenize cs)
      else if c = 58 then map_option ((#) Colon) (tokenize cs)
      else if c = 44 then map_option ((#) Comma) (tokenize cs)
      else if c = 34 then
        (case lex_string cs of
           None \<Rightarrow> None
         | Some (s, rest) \<Rightarrow> map_option ((#) (Lit (JStr s))) (tokenize rest))
      else if c = 45 \<or> is_digit c then
        (case lex_number (c # cs) of
           None \<Rightarrow> None
         | Some (x, rest) \<Rightarrow> map_option ((#) (Lit (JNum x))) (tokenize rest))
      else if take 4 (c # cs) = js ''true'' then
        map_option ((#) (Lit (JBool True))) (tokenize (drop 3 cs))
      else if take 5 (c # cs) = js ''false'' then
        map_option ((#) (Lit (JBool False))) (tokenize (drop 4 cs))
      else if take 4 (c # cs) = js ''null'' then
        map_option ((#) (Lit JNull)) (tokenize (drop 3 cs))
      else None)"
  by pat_completeness auto
termination
proof (relation "measure length", goal_cases)
  case (9 c cs x2 x y)
  then show ?case
    using lex_string_length [of cs x y] by simp
next
  case (10 c cs x2 x y)
  then show ?case
    using lex_number_length [of "c # cs" x y] by simp
qed auto

subsection \<open>\<^verbatim>\<open>JSON.parse\<close>: the parser\<close>

text \<open>
  A pushdown automaton over the tokens. The stack holds the arrays and objects still
  open; \<open>expect\<close> says what may come next. A property written twice keeps its first
  place and its last value (\<open>AList.update\<close>), as \<^verbatim>\<open>JSON.parse\<close> does.
\<close>

datatype frame = InArray "jsval list" | InObject jsobject | AtKey jsstring

datatype expect =
  WantValue | WantValueOrClose | WantKeyOrClose | WantKey | WantColon | Have jsval

definition open_value :: "frame list \<Rightarrow> json_token \<Rightarrow> (expect \<times> frame list) option" where
  "open_value st t =
     (case t of
        Lit v \<Rightarrow> Some (Have v, st)
      | LBracket \<Rightarrow> Some (WantValueOrClose, InArray [] # st)
      | LBrace \<Rightarrow> Some (WantKeyOrClose, InObject [] # st)
      | _ \<Rightarrow> None)"

definition member_key :: "frame list \<Rightarrow> json_token \<Rightarrow> (expect \<times> frame list) option" where
  "member_key st t =
     (case t of Lit (JStr k) \<Rightarrow> Some (WantColon, AtKey k # st) | _ \<Rightarrow> None)"

definition after_value ::
  "jsval \<Rightarrow> frame list \<Rightarrow> json_token \<Rightarrow> (expect \<times> frame list) option" where
  "after_value v st t =
     (case st of
        InArray vs # st' \<Rightarrow>
          (case t of
             Comma \<Rightarrow> Some (WantValue, InArray (vs @ [v]) # st')
           | RBracket \<Rightarrow> Some (Have (JArr (vs @ [v])), st')
           | _ \<Rightarrow> None)
      | AtKey k # InObject ms # st' \<Rightarrow>
          (case t of
             Comma \<Rightarrow> Some (WantKey, InObject (AList.update k v ms) # st')
           | RBrace \<Rightarrow> Some (Have (JObj (AList.update k v ms)), st')
           | _ \<Rightarrow> None)
      | _ \<Rightarrow> None)"

definition step :: "expect \<Rightarrow> frame list \<Rightarrow> json_token \<Rightarrow> (expect \<times> frame list) option" where
  "step e st t =
     (case e of
        WantValue \<Rightarrow> open_value st t
      | WantValueOrClose \<Rightarrow>
          (case t of
             RBracket \<Rightarrow>
               (case st of InArray vs # st' \<Rightarrow> Some (Have (JArr vs), st') | _ \<Rightarrow> None)
           | _ \<Rightarrow> open_value st t)
      | WantKeyOrClose \<Rightarrow>
          (case t of
             RBrace \<Rightarrow>
               (case st of InObject ms # st' \<Rightarrow> Some (Have (JObj ms), st') | _ \<Rightarrow> None)
           | _ \<Rightarrow> member_key st t)
      | WantKey \<Rightarrow> member_key st t
      | WantColon \<Rightarrow> (case t of Colon \<Rightarrow> Some (WantValue, st) | _ \<Rightarrow> None)
      | Have v \<Rightarrow> after_value v st t)"

fun run :: "expect \<Rightarrow> frame list \<Rightarrow> json_token list \<Rightarrow> jsval option" where
  "run e st [] = (case (e, st) of (Have v, []) \<Rightarrow> Some v | _ \<Rightarrow> None)"
| "run e st (t # ts) =
     (case step e st t of None \<Rightarrow> None | Some (e', st') \<Rightarrow> run e' st' ts)"

text \<open>\<open>None\<close> is the exception \<^verbatim>\<open>SyntaxError\<close>.\<close>

definition JSON_parse :: "jsstring \<Rightarrow> jsval option" where
  "JSON_parse s = (case tokenize s of None \<Rightarrow> None | Some ts \<Rightarrow> run WantValue [] ts)"

subsection \<open>\<^verbatim>\<open>JSON.stringify\<close> of an object of numbers and strings\<close>

text \<open>
  \<^verbatim>\<open>JSON.stringify\<close> quotes a string code point by code point: the short escapes, a
  four-digit hexadecimal escape (lower case) for the other control characters and for a surrogate
  that stands alone, everything else as it is.
\<close>

definition hex_digit :: "nat \<Rightarrow> nat" where
  "hex_digit v = (if v < 10 then 48 + v else 87 + v)"

definition unicode_escape :: "nat \<Rightarrow> nat list" where
  "unicode_escape c =
     [92, 117, hex_digit (c div 4096 mod 16), hex_digit (c div 256 mod 16),
      hex_digit (c div 16 mod 16), hex_digit (c mod 16)]"

definition leading_surrogate :: "nat \<Rightarrow> bool" where
  "leading_surrogate c \<longleftrightarrow> 55296 \<le> c \<and> c \<le> 56319"

definition trailing_surrogate :: "nat \<Rightarrow> bool" where
  "trailing_surrogate c \<longleftrightarrow> 56320 \<le> c \<and> c \<le> 57343"

definition quote_unit :: "nat \<Rightarrow> nat list" where
  "quote_unit c =
     (if c = 8 then [92, 98] else if c = 9 then [92, 116] else if c = 10 then [92, 110]
      else if c = 12 then [92, 102] else if c = 13 then [92, 114]
      else if c = 34 then [92, 34] else if c = 92 then [92, 92]
      else if c < 32 \<or> leading_surrogate c \<or> trailing_surrogate c then unicode_escape c
      else [c])"

fun quote_body :: "jsstring \<Rightarrow> nat list" where
  "quote_body [] = []"
| "quote_body [c] = quote_unit c"
| "quote_body (c # d # cs) =
     (if leading_surrogate c \<and> trailing_surrogate d then c # d # quote_body cs
      else quote_unit c @ quote_body (d # cs))"

definition QuoteJSONString :: "jsstring \<Rightarrow> jsstring" where
  "QuoteJSONString s = 34 # quote_body s @ [34]"

function digits :: "nat \<Rightarrow> nat list" where
  "digits n = (if n < 10 then [48 + n] else digits (n div 10) @ [48 + n mod 10])"
  by pat_completeness auto
termination
  by (relation "measure (\<lambda>n. n)") auto

declare digits.simps [simp del]

text \<open>
  The numbers this code serialises are integers: ids and expiries. An integer of
  magnitude at most \<open>2\<^sup>5\<^sup>3\<close> is written with its decimal digits. A larger one is
  written as the decimal number with the fewest significant digits that reads back as
  the same double (the nearest to it, if there are two): with all its digits below
  \<open>10\<^sup>2\<^sup>1\<close>, in exponent notation from there. A number too large for a double is
  written \<^verbatim>\<open>null\<close>.
\<close>

definition reads_back :: "nat \<Rightarrow> nat \<Rightarrow> bool" where
  "reads_back m c \<longleftrightarrow> double (of_nat c) = double (of_nat m)"

definition candidate :: "nat \<Rightarrow> nat \<Rightarrow> nat option" where
  "candidate m k =
     (let q = 10 ^ (length (digits m) - k);
          lo = (m div q) * q;
          hi = lo + q
      in if reads_back m lo \<and> reads_back m hi
         then Some (if m - lo < hi - m \<or> (m - lo = hi - m \<and> even (m div q)) then lo else hi)
         else if reads_back m lo then Some lo
         else if reads_back m hi then Some hi
         else None)"

definition shortest_decimal :: "nat \<Rightarrow> nat" where
  "shortest_decimal m =
     (case List.map_filter (candidate m) [1..<18] of [] \<Rightarrow> m | v # _ \<Rightarrow> v)"

definition exponent_form :: "nat \<Rightarrow> jsstring" where
  "exponent_form v =
     (case rev (dropWhile (\<lambda>c. c = 48) (rev (digits v))) of
        [] \<Rightarrow> [48]
      | d # ds \<Rightarrow>
          d # (if ds = [] then [] else 46 # ds) @ [101, 43] @ digits (length (digits v) - 1))"

definition unsigned_toString :: "nat \<Rightarrow> jsstring" where
  "unsigned_toString m =
     (if m \<le> 2 ^ 53 then digits m
      else let v = shortest_decimal m
           in if v < 10 ^ 21 then digits v else exponent_form v)"

definition Number_toString :: "int \<Rightarrow> jsstring" where
  "Number_toString n =
     (case double (of_int n) of
        Num x \<Rightarrow> if n < 0 then 45 # unsigned_toString (nat (- n)) else unsigned_toString (nat n)
      | _ \<Rightarrow> js ''null'')"

text \<open>The members are given with their values already serialised.\<close>

fun join_members :: "(jsstring \<times> jsstring) list \<Rightarrow> jsstring" where
  "join_members [] = []"
| "join_members [(k, v)] = QuoteJSONString k @ 58 # v"
| "join_members ((k, v) # m # ms) = QuoteJSONString k @ 58 # v @ 44 # join_members (m # ms)"

definition stringify_object :: "(jsstring \<times> jsstring) list \<Rightarrow> jsstring" where
  "stringify_object ms = 123 # join_members ms @ [125]"

subsection \<open>Reading a property, conversion to a number, comparison\<close>

text \<open>
  \<^verbatim>\<open>v.exp\<close> and \<^verbatim>\<open>v.userId\<close> for a value \<open>v\<close> other than \<^verbatim>\<open>null\<close> (on which the
  read throws \<^verbatim>\<open>TypeError\<close>): an object gives the property or \<^verbatim>\<open>undefined\<close>, and a
  boolean, number, string or array has neither name.
\<close>

fun property :: "jsval \<Rightarrow> jsstring \<Rightarrow> jsval option" where
  "property (JObj ms) k = map_of ms k"
| "property _ k = None"

datatype js_exception = TypeError | SyntaxError | InvalidCharacterError

text \<open>
  \<^verbatim>\<open>ToNumber\<close>, which \<^verbatim>\<open><\<close>, \<^verbatim>\<open>>\<close> and \<^verbatim>\<open>-\<close> apply to an operand that is compared
  with, or subtracted from, a number. On \<^verbatim>\<open>undefined\<close>, \<^verbatim>\<open>null\<close>, booleans and numbers it
  is written out. On strings, arrays and objects it is the platform's conversion
  (string parsing, \<^verbatim>\<open>toString\<close>, \<^verbatim>\<open>valueOf\<close>), which may give any number or throw:
  it is the parameter \<open>conv\<close> of every function that compares, and the theorems hold for
  every such conversion.
\<close>

type_synonym conversion = "jsval \<Rightarrow> js_exception + jsnumber"

fun ToNumber :: "conversion \<Rightarrow> jsval option \<Rightarrow> js_exception + jsnumber" where
  "ToNumber conv None = Inr NaN"
| "ToNumber conv (Some JNull) = Inr (Num 0)"
| "ToNumber conv (Some (JBool b)) = Inr (Num (if b then 1 else 0))"
| "ToNumber conv (Some (JNum n)) = Inr n"
| "ToNumber conv (Some v) = conv v"

text \<open>
  \<^verbatim>\<open>n < now\<close> and \<^verbatim>\<open>n > now\<close> for the integer \<open>now\<close> that \<^verbatim>\<open>Date.now()\<close>
  returned. A clock reading is an integer of magnitude at most \<open>8.64 \<times> 10\<^sup>1\<^sup>5\<close>, which
  is a double.
\<close>

fun less_than_now :: "jsnumber \<Rightarrow> int \<Rightarrow> bool" where
  "less_than_now (Num x) now = (x < of_int now)"
| "less_than_now NaN now = False"
| "less_than_now PosInfinity now = False"
| "less_than_now NegInfinity now = True"

fun greater_than_now :: "jsnumber \<Rightarrow> int \<Rightarrow> bool" where
  "greater_than_now (Num x) now = (of_int now < x)"
| "greater_than_now NaN now = False"
| "greater_than_now PosInfinity now = True"
| "greater_than_now NegInfinity now = False"



section \<open>The auth service (routes.jsx, \<^verbatim>\<open>authAPI\<close>)\<close>

subsection \<open>Data\<close>

text \<open>
  The objects the auth service handles, as records. The login form passes
  \<^verbatim>\<open>{email, password}\<close>, the registration form
  \<^verbatim>\<open>{username, email, password, confirmPassword}\<close>; a stored identity adds
  \<^verbatim>\<open>id\<close> and \<^verbatim>\<open>createdAt\<close> (the seeded identity has no
  \<^verbatim>\<open>createdAt\<close>). Ids are the integers they are in this code
  (\<^verbatim>\<open>Date.now()\<close> readings and the literal 1); \<^verbatim>\<open>createdAt\<close> holds the
  instant whose ISO rendering the source stores.
\<close>

record credentials =
  email :: jsstring
  password :: jsstring

record candidate = credentials +
  username :: jsstring

record identity = candidate +
  ident :: int
  createdAt :: "int option"

text \<open>The result of \<^verbatim>\<open>const { password, ...userWithoutPassword } = user\<close>.\<close>

record user_without_password =
  wp_ident :: int
  wp_username :: jsstring
  wp_email :: jsstring
  wp_createdAt :: "int option"

definition without_password :: "identity \<Rightarrow> user_without_password" where
  "without_password u =
     \<lparr>wp_ident = ident u, wp_username = username u, wp_email = email u,
      wp_createdAt = createdAt u\<rparr>"

text \<open>
  Every operation of the service resolves to \<^verbatim>\<open>{success: false, message}\<close> or to
  \<^verbatim>\<open>{success: true, ...}\<close>, unless an exception escapes and the promise is rejected.
  A failure is named after the spec's error; \<open>message\<close> gives the text the source
  returns with it. The constant messages of the successes are left out.
\<close>

datatype auth_error =
  DuplicateEmail | InvalidCredentials | TokenExpired | UserNotFound | TokenInvalid

fun message :: "auth_error \<Rightarrow> string" where
  "message DuplicateEmail = ''Email already registered''"
| "message InvalidCredentials = ''Invalid email or password''"
| "message TokenExpired = ''Token expired''"
| "message UserNotFound = ''User not found''"
| "message TokenInvalid = ''Token verification failed''"

datatype 'a api_result = Rejected js_exception | Failure auth_error | Success 'a

text \<open>The seeded store.\<close>

definition mockUsers :: "identity list" where
  "mockUsers =
     [\<lparr>email = js ''demo@example.com'', password = js ''demo123'', username = js ''demo'',
       ident = 1, createdAt = None\<rparr>]"

subsection \<open>register\<close>

text \<open>
  \<^verbatim>\<open>register(userData)\<close>, run against the store as it is when the simulated delay is
  over. \<open>t_id\<close> is the reading of \<^verbatim>\<open>Date.now()\<close> taken for the id and
  \<open>t_created\<close> the instant of \<^verbatim>\<open>new Date()\<close>. The function returns the result
  and the store after \<^verbatim>\<open>push\<close>.
\<close>

definition authAPI_register ::
  "int \<Rightarrow> int \<Rightarrow> 'a candidate_scheme \<Rightarrow> identity list \<Rightarrow>
     user_without_password api_result \<times> identity list" where
  "authAPI_register t_id t_created userData users =
     (case find (\<lambda>u. email u = email userData) users of
        Some existingUser \<Rightarrow> (Failure DuplicateEmail, users)
      | None \<Rightarrow>
          (let newUser = \<lparr>email = email userData, password = password userData,
                           username = username userData,
                           ident = t_id, createdAt = Some t_created\<rparr>
           in (Success (without_password newUser), users @ [newUser])))"

subsection \<open>The token\<close>

text \<open>
  \<^verbatim>\<open>JSON.stringify({userId: ..., email: ..., exp: ...})\<close>, which \<^verbatim>\<open>login\<close> hands to
  \<^verbatim>\<open>btoa\<close>, and \<^verbatim>\<open>JSON.parse(atob(token))\<close>, with which every reader of a token
  starts. \<open>decode\<close> is \<open>None\<close> when either call throws.
\<close>

definition token_payload :: "int \<Rightarrow> jsstring \<Rightarrow> int \<Rightarrow> jsstring" where
  "token_payload userId em ex =
     stringify_object
       [(js ''userId'', Number_toString userId), (js ''email'', QuoteJSONString em),
        (js ''exp'', Number_toString ex)]"

definition decode :: "jsstring \<Rightarrow> jsval option" where
  "decode t = (case atob t of None \<Rightarrow> None | Some s \<Rightarrow> JSON_parse s)"

subsection \<open>login\<close>

record login_result =
  result_token :: jsstring
  result_user :: user_without_password

text \<open>
  \<^verbatim>\<open>login(credentials)\<close> at the clock reading \<open>now\<close>. When \<^verbatim>\<open>btoa\<close> throws, nothing
  catches the exception and the promise is rejected.
\<close>

definition authAPI_login ::
  "int \<Rightarrow> identity list \<Rightarrow> 'a credentials_scheme \<Rightarrow> login_result api_result" where
  "authAPI_login now users creds =
     (case find (\<lambda>u. email u = email creds \<and> password u = password creds) users of
        None \<Rightarrow> Failure InvalidCredentials
      | Some user \<Rightarrow>
          (case btoa (token_payload (ident user) (email user) (now + 24 * 60 * 60 * 1000)) of
             None \<Rightarrow> Rejected InvalidCharacterError
           | Some token \<Rightarrow>
               Success \<lparr>result_token = token, result_user = without_password user\<rparr>))"

subsection \<open>verifyToken\<close>

text \<open>\<^verbatim>\<open>u.id === decoded.userId\<close>: an id is a number and equals only that number.\<close>

fun strict_equals :: "int \<Rightarrow> jsval option \<Rightarrow> bool" where
  "strict_equals i (Some (JNum (Num x))) = (of_int i = x)"
| "strict_equals i _ = False"

text \<open>
  \<^verbatim>\<open>verifyToken(token)\<close>. Everything is inside the \<^verbatim>\<open>try\<close>: a throw of
  \<^verbatim>\<open>atob\<close> or \<^verbatim>\<open>JSON.parse\<close>, of the read of \<^verbatim>\<open>exp\<close> on \<^verbatim>\<open>null\<close>, or of the
  conversion that \<^verbatim>\<open><\<close> applies to \<^verbatim>\<open>decoded.exp\<close>, ends in the \<^verbatim>\<open>catch\<close>.
\<close>

definition authAPI_verifyToken ::
  "conversion \<Rightarrow> int \<Rightarrow> identity list \<Rightarrow> jsstring \<Rightarrow> user_without_password api_result" where
  "authAPI_verifyToken conv now users token =
     (case decode token of
        None \<Rightarrow> Failure TokenInvalid
      | Some decoded \<Rightarrow>
          if decoded = JNull then Failure TokenInvalid
          else
            (case ToNumber conv (property decoded (js ''exp'')) of
               Inl e \<Rightarrow> Failure TokenInvalid
             | Inr ex \<Rightarrow>
                 if less_than_now ex now then Failure TokenExpired
                 else
                   (case find (\<lambda>u. strict_equals (ident u) (property decoded (js ''userId'')))
                           users of
                      None \<Rightarrow> Failure UserNotFound
                    | Some user \<Rightarrow> Success (without_password user))))"

section \<open>The session state holder (main.js, \<^verbatim>\<open>sessionManager\<close>)\<close>

text \<open>
  \<^verbatim>\<open>currentSession\<close>. The user is \<^verbatim>\<open>null\<close> (\<open>None\<close>) or an object, the token
  \<^verbatim>\<open>null\<close> or a string, as the auth service issues them; \<^verbatim>\<open>undefined\<close> behaves as
  \<^verbatim>\<open>null\<close> in every line of this code and is \<open>None\<close> too. The calls to
  \<^verbatim>\<open>console.log\<close> and \<^verbatim>\<open>window.dispatchEvent\<close> do not touch the session and are
  left out, except where their arguments can throw.
\<close>

record session =
  user :: "jsobject option"
  token :: "jsstring option"
  isAuthenticated :: bool

definition currentSession :: session where
  "currentSession = \<lparr>user = None, token = None, isAuthenticated = False\<rparr>"

datatype 'a completion = Returns 'a | Throws js_exception

text \<open>
  \<^verbatim>\<open>login(userData, authToken, rememberMe)\<close>. The three assignments come first;
  \<^verbatim>\<open>userData.username\<close> in the log line then throws when \<^verbatim>\<open>userData\<close> is
  \<^verbatim>\<open>null\<close>.
\<close>

definition sessionManager_login ::
  "jsobject option \<Rightarrow> jsstring option \<Rightarrow> bool \<Rightarrow> session \<Rightarrow> bool completion \<times> session" where
  "sessionManager_login userData authToken rememberMe s =
     (let s' = s\<lparr>user := userData, token := authToken, isAuthenticated := True\<rparr>
      in case userData of
           None \<Rightarrow> (Throws TypeError, s')
         | Some u \<Rightarrow> (Returns True, s'))"

definition sessionManager_logout :: "session \<Rightarrow> bool completion \<times> session" where
  "sessionManager_logout s =
     (Returns True, s\<lparr>user := None, token := None, isAuthenticated := False\<rparr>)"

text \<open>
  \<^verbatim>\<open>{ ...a, ...b }\<close>: a new object that receives the properties of \<open>a\<close>, then those
  of \<open>b\<close>; spreading \<^verbatim>\<open>null\<close> adds nothing.
\<close>

definition spread :: "jsobject \<Rightarrow> jsobject option \<Rightarrow> jsobject" where
  "spread a b =
     foldl (\<lambda>obj (k, v). AList.update k v obj) []
       (a @ (case b of None \<Rightarrow> [] | Some ps \<Rightarrow> ps))"

definition sessionManager_updateUser ::
  "jsobject option \<Rightarrow> session \<Rightarrow> bool completion \<times> session" where
  "sessionManager_updateUser updates s =
     (case user s of
        None \<Rightarrow> (Returns False, s)
      | Some u \<Rightarrow> (Returns True, s\<lparr>user := Some (spread u updates)\<rparr>))"

text \<open>
  \<^verbatim>\<open>verifyToken()\<close> at the clock reading \<open>now\<close>. \<^verbatim>\<open>!currentSession.token\<close> holds
  for \<^verbatim>\<open>null\<close> and for the empty string.
\<close>

definition sessionManager_verifyToken ::
  "conversion \<Rightarrow> int \<Rightarrow> session \<Rightarrow> bool completion \<times> session" where
  "sessionManager_verifyToken conv now s =
     (case token s of
        None \<Rightarrow> (Returns False, s)
      | Some t \<Rightarrow>
          if t = [] then (Returns False, s)
          else
            (case decode t of
               None \<Rightarrow> (Returns False, s)
             | Some decoded \<Rightarrow>
                 if decoded = JNull then (Returns False, s)
                 else
                   (case ToNumber conv (property decoded (js ''exp'')) of
                      Inl e \<Rightarrow> (Returns False, s)
                    | Inr ex \<Rightarrow>
                        if less_than_now ex now
                        then (Returns False, snd (sessionManager_logout s))
                        else (Returns True, s))))"


definition sessionManager_restoreSession :: "session \<Rightarrow> bool completion \<times> session" where
  "sessionManager_restoreSession s = (Returns False, s)"

text \<open>
  A call of the session state holder, and the session it leaves behind, whether the call
  returns or throws.
\<close>

datatype call =
  Login "jsobject option" "jsstring option" bool
  | Logout
  | UpdateUser "jsobject option"
  | VerifyToken int
  | RestoreSession

fun perform :: "conversion \<Rightarrow> session \<Rightarrow> call \<Rightarrow> session" where
  "perform conv s (Login userData authToken rememberMe) =
     snd (sessionManager_login userData authToken rememberMe s)"
| "perform conv s Logout = snd (sessionManager_logout s)"
| "perform conv s (UpdateUser updates) = snd (sessionManager_updateUser updates s)"
| "perform conv s (VerifyToken now) = snd (sessionManager_verifyToken conv now s)"
| "perform conv s RestoreSession = snd (sessionManager_restoreSession s)"

definition after_calls :: "conversion \<Rightarrow> call list \<Rightarrow> session" where
  "after_calls conv cs = foldl (perform conv) currentSession cs"

text \<open>A \<^verbatim>\<open>login\<close> call that passes a user and a token.\<close>

fun passes_both :: "call \<Rightarrow> bool" where
  "passes_both (Login userData authToken rememberMe) = (userData \<noteq> None \<and> authToken \<noteq> None)"
| "passes_both c = True"

section \<open>The session provider (session.jsx, \<^verbatim>\<open>SessionProvider\<close>)\<close>

text \<open>
  The state of the provider, its \<^verbatim>\<open>verifyStoredToken\<close>, \<^verbatim>\<open>clearSession\<close> and
  \<^verbatim>\<open>initializeSession\<close>. The effect that sets
  \<^verbatim>\<open>isAuthenticated\<close> to \<^verbatim>\<open>!!(user && token)\<close> is \<open>derive\<close>; it has run when
  \<^verbatim>\<open>initializeSession\<close> has settled.
\<close>

record provider =
  p_user :: "jsobject option"
  p_token :: "jsstring option"
  p_loading :: bool
  p_isAuthenticated :: bool

definition truthy :: "jsstring option \<Rightarrow> bool" where
  "truthy t \<longleftrightarrow> (case t of None \<Rightarrow> False | Some cs \<Rightarrow> cs \<noteq> [])"

definition derive :: "provider \<Rightarrow> provider" where
  "derive p = p\<lparr>p_isAuthenticated := (p_user p \<noteq> None \<and> truthy (p_token p))\<rparr>"

definition verifyStoredToken :: "conversion \<Rightarrow> int \<Rightarrow> jsstring \<Rightarrow> bool" where
  "verifyStoredToken conv now t =
     (case decode t of
        None \<Rightarrow> False
      | Some decoded \<Rightarrow>
          if decoded = JNull then False
          else
            (case ToNumber conv (property decoded (js ''exp'')) of
               Inl e \<Rightarrow> False
             | Inr ex \<Rightarrow> greater_than_now ex now))"

definition clearSession :: "provider \<Rightarrow> provider" where
  "clearSession p = p\<lparr>p_user := None, p_token := None, p_isAuthenticated := False\<rparr>"

definition initializeSession :: "conversion \<Rightarrow> int \<Rightarrow> provider \<Rightarrow> provider" where
  "initializeSession conv now p =
     derive
       ((case p_token p of
           None \<Rightarrow> p
         | Some storedToken \<Rightarrow>
             if storedToken \<noteq> [] \<and> p_user p \<noteq> None
             then (if verifyStoredToken conv now storedToken then p else clearSession p)
             else p)
        \<lparr>p_loading := False\<rparr>)"

section \<open>Sample values\<close>

text \<open>
  The values at which the closed statements below are evaluated: a session user, the
  token \<^verbatim>\<open>login\<close> issues to the seeded identity with a given expiry, and a
  conversion for the parameter \<open>conv\<close> (no token of these statements reaches it).
\<close>

definition demo_user :: jsobject where
  "demo_user =
     [(js ''id'', JNum (Num 1)), (js ''username'', JStr (js ''demo'')),
      (js ''email'', JStr (js ''demo@example.com''))]"

definition issued :: "int \<Rightarrow> jsstring" where
  "issued ex = base64 (token_payload 1 (js ''demo@example.com'') ex)"

definition sample_conversion :: conversion where
  "sample_conversion v = Inr NaN"

section \<open>Facts about the platform functions\<close>

subsection \<open>Rounding to a double\<close>

text \<open>
  \<open>floor_log2\<close> is the binary exponent; an integer of magnitude at most \<open>2\<^sup>5\<^sup>3\<close> is a
  double; and in the normal range the rounding error is at most \<open>\<bar>x\<bar> / 2\<^sup>5\<^sup>3\<close>.
\<close>

lemma of_int_le_pow2: "c \<le> 2 ^ n \<Longrightarrow> (of_int c :: rat) \<le> 2 ^ n"
proof -
  assume "c \<le> 2 ^ n"
  then have "(of_int c :: rat) \<le> of_int (2 ^ n)" by (simp only: of_int_le_iff)
  then show ?thesis by simp
qed

lemma pow2_le_of_int: "2 ^ n \<le> c \<Longrightarrow> (2 :: rat) ^ n \<le> of_int c"
proof -
  assume "2 ^ n \<le> c"
  then have "(of_int (2 ^ n) :: rat) \<le> of_int c" by (simp only: of_int_le_iff)
  then show ?thesis by simp
qed

lemma floor_log2_bounds:
  assumes "0 < a"
  shows "2 powi floor_log2 a \<le> a" and "a < 2 powi (floor_log2 a + 1)"
proof -
  have "2 powi floor_log2 a \<le> a \<and> a < 2 powi (floor_log2 a + 1)"
  proof (cases "1 \<le> a")
    case True
    define n where "n = \<lfloor>a\<rfloor>"
    have n: "0 < n" using True by (simp add: n_def)
    define b where "b = bitlen n"
    from bitlen_bounds [OF n] have lo: "2 ^ nat (b - 1) \<le> n" and hi: "n < 2 ^ nat b"
      by (simp_all add: b_def)
    have b1: "1 \<le> b"
    proof (rule ccontr)
      assume "\<not> 1 \<le> b"
      then have "nat b = 0" by simp
      with hi n show False by simp
    qed
    have e: "floor_log2 a = b - 1"
      using True by (simp add: floor_log2_def n_def b_def)
    have "(2::rat) powi (b - 1) = 2 ^ nat (b - 1)"
      using b1 by (simp add: power_int_def)
    also have "\<dots> \<le> of_int n" using lo by (rule pow2_le_of_int)
    also have "\<dots> \<le> a" by (simp add: n_def)
    finally have l: "2 powi (b - 1) \<le> a" .
    have "n + 1 \<le> 2 ^ nat b" using hi by simp
    then have "(of_int (n + 1) :: rat) \<le> 2 ^ nat b" by (rule of_int_le_pow2)
    moreover have "a < of_int (n + 1)" unfolding n_def by linarith
    ultimately have "a < 2 ^ nat b" by linarith
    also have "\<dots> = 2 powi b" using b1 by (simp add: power_int_def)
    finally show ?thesis using l e by simp
  next
    case False
    then have a1: "a < 1" by simp
    define c where "c = \<lceil>1 / a\<rceil>"
    have inv: "1 < 1 / a" using assms a1 by simp
    have cge: "1 / a \<le> of_int c" by (simp add: c_def)
    have clt: "of_int c - 1 < 1 / a" unfolding c_def by linarith
    have c2: "2 \<le> c"
    proof -
      have "(1::rat) < of_int c" using inv cge by linarith
      then have "1 < c" by simp
      then show ?thesis by simp
    qed
    define j where "j = bitlen (c - 1)"
    have pos: "0 < c - 1" using c2 by simp
    from bitlen_bounds [OF pos] have lo: "2 ^ nat (j - 1) \<le> c - 1" and hi: "c - 1 < 2 ^ nat j"
      by (simp_all add: j_def)
    have j1: "1 \<le> j"
    proof (rule ccontr)
      assume "\<not> 1 \<le> j"
      then have "nat j = 0" by simp
      with hi pos show False by simp
    qed
    have e: "floor_log2 a = - j"
      using False by (simp add: floor_log2_def c_def j_def)
    have "c \<le> 2 ^ nat j" using hi by simp
    then have "(of_int c :: rat) \<le> 2 ^ nat j" by (rule of_int_le_pow2)
    then have "1 / a \<le> 2 ^ nat j" using cge by linarith
    then have "1 \<le> 2 ^ nat j * a" using assms by (simp add: field_simps)
    then have "1 / 2 ^ nat j \<le> a" by (simp add: field_simps)
    moreover have "(2::rat) powi (- j) = 1 / 2 ^ nat j"
      using j1 by (simp add: power_int_def field_simps)
    ultimately have l: "2 powi (- j) \<le> a" by simp
    have "(2 :: rat) ^ nat (j - 1) \<le> of_int (c - 1)" using lo by (rule pow2_le_of_int)
    then have "(2::rat) ^ nat (j - 1) < 1 / a" using clt by simp
    then have "2 ^ nat (j - 1) * a < 1" using assms by (simp add: field_simps)
    then have u: "a < 1 / 2 ^ nat (j - 1)" by (simp add: field_simps)
    have "(2::rat) powi (- j + 1) = 1 / 2 ^ nat (j - 1)"
    proof (cases "j = 1")
      case True
      then show ?thesis by simp
    next
      case False
      with j1 have "- j + 1 < 0" by simp
      moreover have "nat (- (- j + 1)) = nat (j - 1)" by simp
      ultimately show ?thesis by (simp add: power_int_def field_simps)
    qed
    with u have "a < 2 powi (- j + 1)" by simp
    with l e show ?thesis by simp
  qed
  then show "2 powi floor_log2 a \<le> a" and "a < 2 powi (floor_log2 a + 1)" by simp_all
qed

lemma round_half_even_of_int: "round_half_even (of_int m) = m"
  by (simp add: round_half_even_def)





lemma double_of_int:
  assumes "\<bar>k\<bar> \<le> 2 ^ 53"
  shows "double (of_int k) = Num (of_int k)"
proof (cases "k = 0")
  case True
  then show ?thesis by (simp add: double_def)
next
  case False
  define a :: rat where "a = of_int \<bar>k\<bar>"
  have a_abs: "\<bar>of_int k :: rat\<bar> = a" by (simp add: a_def)
  have "1 \<le> \<bar>k\<bar>" using False by simp
  then have "(of_int 1 :: rat) \<le> of_int \<bar>k\<bar>" by (simp only: of_int_le_iff)
  then have a1: "1 \<le> a" by (simp add: a_def)
  have a53: "a \<le> 2 ^ 53" unfolding a_def using assms by (rule of_int_le_pow2)
  define e where "e = floor_log2 a"
  have lo: "2 powi e \<le> a" and hi: "a < 2 powi (e + 1)"
    using floor_log2_bounds [of a] a1 by (simp_all add: e_def)
  have e0: "0 \<le> e"
  proof (rule ccontr)
    assume "\<not> 0 \<le> e"
    then have "e + 1 \<le> 0" by simp
    then have "(2::rat) powi (e + 1) \<le> 2 powi 0" by (intro power_int_increasing) simp_all
    with hi a1 show False by simp
  qed
  have e53: "e \<le> 53"
  proof (rule ccontr)
    assume "\<not> e \<le> 53"
    then have "54 \<le> e" by simp
    then have "(2::rat) powi 54 \<le> 2 powi e" by (intro power_int_increasing) simp_all
    with lo a53 show False by simp
  qed
  define p where "p = e - 52"
  have pmax: "max (e - 52) (- 1074) = p" using e0 by (simp add: p_def)
  have "\<exists>m. a / 2 powi p = of_int m"
  proof (cases "e = 53")
    case True
    then have "(2::rat) ^ 53 \<le> a" using lo by simp
    with a53 have "a = 2 ^ 53" by simp
    moreover have "p = 1" using True by (simp add: p_def)
    ultimately have "a / 2 powi p = of_int (2 ^ 52)" by simp
    then show ?thesis by blast
  next
    case False
    with e53 have p0: "p \<le> 0" by (simp add: p_def)
    then have "(2::rat) powi p = 1 / 2 ^ nat (- p)"
      by (cases "p = 0") (simp_all add: power_int_def field_simps)
    then have "a / 2 powi p = of_int (\<bar>k\<bar> * 2 ^ nat (- p))" by (simp add: a_def)
    then show ?thesis by blast
  qed
  then obtain m where m: "a / 2 powi p = of_int m" by blast
  have "of_int (round_half_even (a / 2 powi p)) * 2 powi p = a / 2 powi p * 2 powi p"
    by (simp only: m round_half_even_of_int)
  also have "\<dots> = a" by simp
  finally have y: "of_int (round_half_even (a / 2 powi p)) * 2 powi p = a" .
  have big: "\<not> (2::rat) ^ 1024 \<le> a" using a53 by simp
  have nz: "(of_int k :: rat) \<noteq> 0" using False by simp
  have sgn: "(if 0 < (of_int k :: rat) then a else - a) = of_int k"
    by (simp add: a_def abs_if)
  show ?thesis
    unfolding double_def Let_def a_abs e_def [symmetric] pmax
    by (simp only: nz y big sgn if_False)
qed




subsection \<open>Whole minutes in double arithmetic\<close>



subsection \<open>\<^verbatim>\<open>atob\<close> undoes \<^verbatim>\<open>btoa\<close>\<close>

lemma b64_index_char: "v < 64 \<Longrightarrow> b64_index (b64_char v) = Some v"
  by (auto simp: b64_index_def b64_char_def)

lemma b64_char_not_pad: "v < 64 \<Longrightarrow> b64_char v \<noteq> 61"
  by (auto simp: b64_char_def)

lemma b64_char_not_ws: "v < 64 \<Longrightarrow> \<not> ascii_whitespace (b64_char v)"
  by (auto simp: b64_char_def ascii_whitespace_def)

lemma sextets_bound: "list_all (\<lambda>c. c \<le> 255) bs \<Longrightarrow> list_all (\<lambda>v. v < 64) (sextets bs)"
  by (induction bs rule: sextets.induct) auto

lemma octets_sextets: "list_all (\<lambda>c. c \<le> 255) bs \<Longrightarrow> octets (sextets bs) = Some bs"
  by (induction bs rule: sextets.induct) auto

lemma b64_index_map:
  "list_all (\<lambda>v. v < 64) vs \<Longrightarrow> those (map (b64_index \<circ> b64_char) vs) = Some vs"
  by (induction vs) (auto simp: b64_index_char)

lemma filter_ws_b64:
  assumes "list_all (\<lambda>v. v < 64) vs"
  shows "filter (\<lambda>c. \<not> ascii_whitespace c) (map b64_char vs @ padding n)
           = map b64_char vs @ padding n"
proof -
  have "\<not> ascii_whitespace c" if "c \<in> set (map b64_char vs @ padding n)" for c
  proof -
    from that consider v where "v \<in> set vs" "c = b64_char v" | "c = 61"
      by (auto simp: padding_def)
    then show ?thesis
    proof cases
      case 1
      with assms have "v < 64" by (simp add: list_all_iff)
      with 1 show ?thesis by (simp add: b64_char_not_ws)
    next
      case 2
      then show ?thesis by (simp add: ascii_whitespace_def)
    qed
  qed
  then show ?thesis
    by (simp only: filter_id_conv) blast
qed

lemma last_b64: "list_all (\<lambda>v. v < 64) vs \<Longrightarrow> vs \<noteq> [] \<Longrightarrow> last (map b64_char vs) \<noteq> 61"
  by (simp add: last_map list_all_iff b64_char_not_pad)

lemma sextets_shape:
  "(length bs mod 3 = 0 \<longrightarrow> length (sextets bs) mod 4 = 0)
   \<and> (length bs mod 3 = 1 \<longrightarrow> length (sextets bs) mod 4 = 2)
   \<and> (length bs mod 3 = 2 \<longrightarrow> length (sextets bs) mod 4 = 3)
   \<and> (bs \<noteq> [] \<longrightarrow> sextets bs \<noteq> [])"
  by (induction bs rule: sextets.induct) (auto simp: mod_Suc)

lemma strip_padding_b64:
  assumes "list_all (\<lambda>v. v < 64) (sextets bs)"
  shows "strip_padding (map b64_char (sextets bs) @ padding (length bs))
           = map b64_char (sextets bs)"
proof -
  let ?e = "map b64_char (sextets bs)"
  have m: "length bs mod 3 = 0 \<or> length bs mod 3 = 1 \<or> length bs mod 3 = 2"
    by arith
  then show ?thesis
  proof (elim disjE)
    assume a: "length bs mod 3 = 0"
    then have p: "padding (length bs) = []" by (simp add: padding_def)
    show ?thesis
    proof (cases "bs = []")
      case True
      then show ?thesis by (simp add: strip_padding_def padding_def)
    next
      case False
      with sextets_shape [of bs] have "sextets bs \<noteq> []" by simp
      with assms have "last ?e \<noteq> 61" by (simp add: last_b64)
      with p show ?thesis by (simp add: strip_padding_def)
    qed
  next
    assume a: "length bs mod 3 = 1"
    then have p: "padding (length bs) = [61, 61]"
      by (simp add: padding_def numeral_2_eq_2)
    from a sextets_shape [of bs] have "length (sextets bs) mod 4 = 2" by simp
    then have "length (?e @ [61, 61]) mod 4 = 0"
      by (simp add: mod_Suc)
    with p show ?thesis
      by (simp add: strip_padding_def butlast_append)
  next
    assume a: "length bs mod 3 = 2"
    then have p: "padding (length bs) = [61]"
      by (simp add: padding_def)
    from a have "bs \<noteq> []" by auto
    with sextets_shape [of bs] have ne: "sextets bs \<noteq> []" by simp
    with assms have l: "last ?e \<noteq> 61" by (simp add: last_b64)
    from a sextets_shape [of bs] have "length (sextets bs) mod 4 = 3" by simp
    then have "length (?e @ [61]) mod 4 = 0"
      by (simp add: mod_Suc)
    with p l ne show ?thesis
      by (simp add: strip_padding_def butlast_append)
  qed
qed

lemma atob_btoa: "btoa s = Some t \<Longrightarrow> atob t = Some s"
proof -
  assume "btoa s = Some t"
  then have ok: "list_all (\<lambda>c. c \<le> 255) s"
    and t: "t = map b64_char (sextets s) @ padding (length s)"
    by (auto simp: btoa_def base64_def split: if_splits)
  from ok have b: "list_all (\<lambda>v. v < 64) (sextets s)"
    by (rule sextets_bound)
  have f: "filter (\<lambda>c. \<not> ascii_whitespace c) t = t"
    using filter_ws_b64 [OF b, of "length s"] by (simp only: t)
  have sp: "strip_padding t = map b64_char (sextets s)"
    using strip_padding_b64 [OF b] by (simp only: t)
  show ?thesis
    by (simp add: atob_def f sp b64_index_map [OF b] octets_sextets [OF ok])
qed

subsection \<open>The lexer reads back a quoted string\<close>

lemma hex_value_digit: "v < 16 \<Longrightarrow> hex_value (hex_digit v) = Some v"
  by (auto simp: hex_value_def hex_digit_def)

lemma nibbles:
  "c = 16 * q1 + r0 \<Longrightarrow> q1 = 16 * q2 + r1 \<Longrightarrow> q2 = 16 * q3 + r2 \<Longrightarrow>
     ((q3 * 16 + r2) * 16 + r1) * 16 + r0 = (c::nat)"
  by simp

lemma hex_recompose:
  assumes "c < 65536"
  shows "((c div 4096 mod 16 * 16 + c div 256 mod 16) * 16 + c div 16 mod 16) * 16 + c mod 16
           = (c::nat)"
proof -
  have a: "c = 16 * (c div 16) + c mod 16" by simp
  have b: "c div 16 = 16 * (c div 256) + c div 16 mod 16"
    using mult_div_mod_eq [of 16 "c div 16"] by (simp add: div_mult2_eq [symmetric])
  have c: "c div 256 = 16 * (c div 4096) + c div 256 mod 16"
    using mult_div_mod_eq [of 16 "c div 256"] by (simp add: div_mult2_eq [symmetric])
  have d: "c div 4096 mod 16 = c div 4096"
    using assms by simp
  show ?thesis
    unfolding d by (rule nibbles [OF a b c])
qed

lemma lex_string_plain:
  "32 \<le> c \<Longrightarrow> c \<noteq> 34 \<Longrightarrow> c \<noteq> 92 \<Longrightarrow>
     lex_string (c # rest) = map_option (apfst ((#) c)) (lex_string rest)"
  by simp

lemma lex_string_escape:
  "unescape e = Some u \<Longrightarrow> e \<noteq> 117 \<Longrightarrow>
     lex_string (92 # e # rest) = map_option (apfst ((#) u)) (lex_string rest)"
  by simp

lemma lex_string_u:
  "hex4 [h1, h2, h3, h4] = Some u \<Longrightarrow>
     lex_string (92 # 117 # h1 # h2 # h3 # h4 # rest)
       = map_option (apfst ((#) u)) (lex_string rest)"
  by simp

lemma lex_string_close: "lex_string (34 # rest) = Some ([], rest)"
  by simp

declare lex_string.simps [simp del]

lemma hex4_digits:
  assumes "c < 65536"
  shows "hex4 [hex_digit (c div 4096 mod 16), hex_digit (c div 256 mod 16),
               hex_digit (c div 16 mod 16), hex_digit (c mod 16)] = Some c"
proof -
  have "hex4 [hex_digit (c div 4096 mod 16), hex_digit (c div 256 mod 16),
              hex_digit (c div 16 mod 16), hex_digit (c mod 16)]
        = Some (((c div 4096 mod 16 * 16 + c div 256 mod 16) * 16 + c div 16 mod 16) * 16
                + c mod 16)"
    by (simp add: hex4_def hex_value_digit)
  also have "\<dots> = Some c"
    by (simp only: hex_recompose [OF assms])
  finally show ?thesis .
qed

lemma lex_string_unicode_escape:
  assumes "c < 65536"
  shows "lex_string (unicode_escape c @ rest) = map_option (apfst ((#) c)) (lex_string rest)"
  unfolding unicode_escape_def
  using lex_string_u [OF hex4_digits [OF assms], of rest] by simp

lemma lex_string_quote_unit:
  "lex_string (quote_unit c @ rest) = map_option (apfst ((#) c)) (lex_string rest)"
proof -
  consider "c = 8" | "c = 9" | "c = 10" | "c = 12" | "c = 13" | "c = 34" | "c = 92"
    | "c \<notin> {8, 9, 10, 12, 13, 34, 92}"
      "c < 32 \<or> leading_surrogate c \<or> trailing_surrogate c"
    | "c \<notin> {8, 9, 10, 12, 13, 34, 92}"
      "\<not> (c < 32 \<or> leading_surrogate c \<or> trailing_surrogate c)"
    by blast
  then show ?thesis
  proof cases
    case 8
    then have "c < 65536"
      by (auto simp: leading_surrogate_def trailing_surrogate_def)
    from lex_string_unicode_escape [OF this] 8 show ?thesis
      by (simp add: quote_unit_def)
  next
    case 9
    then have "quote_unit c = [c]" "32 \<le> c" "c \<noteq> 34" "c \<noteq> 92"
      by (auto simp: quote_unit_def)
    then show ?thesis
      by (simp add: lex_string_plain)
  qed (simp_all add: quote_unit_def lex_string_escape unescape_def)
qed

lemma lex_string_surrogate:
  "leading_surrogate c \<or> trailing_surrogate c \<Longrightarrow>
     lex_string (c # rest) = map_option (apfst ((#) c)) (lex_string rest)"
  by (rule lex_string_plain) (auto simp: leading_surrogate_def trailing_surrogate_def)

lemma lex_string_quote_body: "lex_string (quote_body s @ 34 # rest) = Some (s, rest)"
proof (induction s rule: quote_body.induct)
  case 1
  show ?case by (simp add: lex_string_close)
next
  case (2 c)
  show ?case
    using lex_string_quote_unit [of c "34 # rest"] by (simp add: lex_string_close)
next
  case (3 c d cs)
  show ?case
  proof (cases "leading_surrogate c \<and> trailing_surrogate d")
    case True
    then have "quote_body (c # d # cs) = c # d # quote_body cs"
      by simp
    with "3.IH"(1) [OF True] True show ?thesis
      by (simp add: lex_string_surrogate)
  next
    case False
    then have "quote_body (c # d # cs) = quote_unit c @ quote_body (d # cs)"
      by (simp only: quote_body.simps if_False)
    with "3.IH"(2) [OF False] show ?thesis
      by (simp add: lex_string_quote_unit)
  qed
qed

subsection \<open>The lexer reads back a printed integer\<close>

lemma digits_small: "n < 10 \<Longrightarrow> digits n = [48 + n]"
  by (simp add: digits.simps)

lemma digits_large: "\<not> n < 10 \<Longrightarrow> digits n = digits (n div 10) @ [48 + n mod 10]"
  by (subst digits.simps) simp

lemma digits_all: "list_all is_digit (digits n)"
proof (induction n rule: digits.induct)
  case (1 n)
  show ?case
  proof (cases "n < 10")
    case True
    then show ?thesis by (simp add: digits_small is_digit_def)
  next
    case False
    have "n mod 10 < 10" by simp
    then have "is_digit (48 + n mod 10)"
      unfolding is_digit_def by linarith
    with 1 [OF False] False show ?thesis
      by (simp add: digits_large)
  qed
qed

lemma digits_nonempty: "digits n \<noteq> []"
  by (cases "n < 10") (simp_all add: digits_small digits_large)

lemma digits_hd: "0 < n \<Longrightarrow> hd (digits n) \<noteq> 48"
proof (induction n rule: digits.induct)
  case (1 n)
  show ?case
  proof (cases "n < 10")
    case True
    with "1.prems" show ?thesis by (simp add: digits_small)
  next
    case False
    then have "0 < n div 10" by simp
    with 1 False show ?thesis
      by (simp add: digits_large digits_nonempty)
  qed
qed

lemma digits_value_snoc: "digits_value (ds @ [d]) = digits_value ds * 10 + (d - 48)"
  by (simp add: digits_value_def)

lemma digits_value_digits: "digits_value (digits n) = n"
proof (induction n rule: digits.induct)
  case (1 n)
  show ?case
  proof (cases "n < 10")
    case True
    then show ?thesis by (simp add: digits_small digits_value_def)
  next
    case False
    with 1 show ?thesis
      by (simp add: digits_large digits_value_snoc)
  qed
qed

definition ends_number :: "nat list \<Rightarrow> bool" where
  "ends_number rest \<longleftrightarrow>
     (case rest of [] \<Rightarrow> True | c # _ \<Rightarrow> \<not> is_digit c \<and> c \<noteq> 46 \<and> c \<noteq> 101 \<and> c \<noteq> 69)"

lemma takeWhile_digits:
  assumes "ends_number rest"
  shows "takeWhile is_digit (digits n @ rest) = digits n"
    and "dropWhile is_digit (digits n @ rest) = rest"
proof -
  have all: "\<And>x. x \<in> set (digits n) \<Longrightarrow> is_digit x"
    using digits_all [of n] by (simp add: list_all_iff)
  have t: "takeWhile is_digit rest = []" and d: "dropWhile is_digit rest = rest"
    using assms by (cases rest, simp_all add: ends_number_def)+
  show "takeWhile is_digit (digits n @ rest) = digits n"
    using all t by (simp add: takeWhile_append2)
  show "dropWhile is_digit (digits n @ rest) = rest"
    using all d by (simp add: dropWhile_append2)
qed

lemma lex_int_digits:
  assumes "ends_number rest"
  shows "lex_int (digits n @ rest) = Some (digits n, rest)"
proof (cases "n = 0")
  case True
  then show ?thesis
    by (simp add: digits_small lex_int_def)
next
  case False
  obtain d ds where c: "digits n = d # ds"
    using digits_nonempty [of n] by (cases "digits n") auto
  with False digits_hd [of n] digits_all [of n] have "d \<noteq> 48" "is_digit d"
    by auto
  then have "lex_int (digits n @ rest)
               = Some (takeWhile is_digit (digits n @ rest), dropWhile is_digit (digits n @ rest))"
    unfolding c by (simp add: lex_int_def)
  then show ?thesis
    by (simp only: takeWhile_digits [OF assms])
qed

lemma lex_frac_none: "ends_number rest \<Longrightarrow> lex_frac rest = Some ([], rest)"
  by (cases rest) (simp_all add: lex_frac_def ends_number_def)

lemma lex_exp_none: "ends_number rest \<Longrightarrow> lex_exp rest = Some (1, rest)"
  by (cases rest) (simp_all add: lex_exp_def ends_number_def)

lemma lex_number_digits:
  assumes "ends_number rest"
  shows "lex_number (digits n @ rest) = Some (double (of_nat n), rest)"
proof -
  obtain d ds where c: "digits n = d # ds"
    using digits_nonempty [of n] by (cases "digits n") auto
  with digits_all [of n] have "d \<noteq> 45"
    by (auto simp: is_digit_def)
  then have "lex_number (digits n @ rest) =
      (case lex_int (digits n @ rest) of
         None \<Rightarrow> None
       | Some (ip, cs2) \<Rightarrow>
           (case lex_frac cs2 of
              None \<Rightarrow> None
            | Some (fp, cs3) \<Rightarrow>
                (case lex_exp cs3 of
                   None \<Rightarrow> None
                 | Some (scale, cs4) \<Rightarrow>
                     Some (double (1 * (of_nat (digits_value (ip @ fp)) / 10 ^ length fp)
                                   * scale),
                           cs4))))"
    unfolding c by (simp add: lex_number_def)
  then show ?thesis
    by (simp add: lex_int_digits [OF assms] lex_frac_none [OF assms] lex_exp_none [OF assms]
        digits_value_digits)
qed

lemma lex_number_minus_digits:
  assumes "ends_number rest"
  shows "lex_number (45 # digits n @ rest) = Some (double (- of_nat n), rest)"
  by (simp add: lex_number_def lex_int_digits [OF assms] lex_frac_none [OF assms]
      lex_exp_none [OF assms] digits_value_digits)

lemma Number_toString_digits:
  assumes "\<bar>n\<bar> \<le> 2 ^ 53"
  shows "Number_toString n = (if n < 0 then 45 # digits (nat (- n)) else digits (nat n))"
proof -
  have "nat (- n) \<le> 2 ^ 53" "nat n \<le> 2 ^ 53"
    using assms by (simp_all add: nat_le_iff)
  then show ?thesis
    by (simp add: Number_toString_def unsigned_toString_def double_of_int [OF assms])
qed

lemma lex_number_toString:
  assumes "ends_number rest" and "\<bar>n\<bar> \<le> 2 ^ 53"
  shows "lex_number (Number_toString n @ rest) = Some (Num (of_int n), rest)"
proof (cases "n < 0")
  case True
  then have v: "- (of_nat (nat (- n)) :: rat) = of_int n"
    by simp
  from True have "Number_toString n @ rest = 45 # digits (nat (- n)) @ rest"
    by (simp add: Number_toString_digits [OF assms(2)])
  then show ?thesis
    by (simp only: lex_number_minus_digits [OF assms(1)] v double_of_int [OF assms(2)])
next
  case False
  then have v: "(of_nat (nat n) :: rat) = of_int n"
    by simp
  from False have "Number_toString n = digits (nat n)"
    by (simp add: Number_toString_digits [OF assms(2)])
  then show ?thesis
    by (simp only: lex_number_digits [OF assms(1)] v double_of_int [OF assms(2)])
qed

subsection \<open>\<^verbatim>\<open>JSON.parse\<close> reads back the token's payload\<close>

lemma lex_structural:
  "tokenize (123 # cs) = map_option ((#) LBrace) (tokenize cs)"
  "tokenize (125 # cs) = map_option ((#) RBrace) (tokenize cs)"
  "tokenize (58 # cs) = map_option ((#) Colon) (tokenize cs)"
  "tokenize (44 # cs) = map_option ((#) Comma) (tokenize cs)"
  by (simp_all add: json_whitespace_def)

lemma lex_quote:
  "tokenize (34 # cs) =
     (case lex_string cs of
        None \<Rightarrow> None
      | Some (s, rest) \<Rightarrow> map_option ((#) (Lit (JStr s))) (tokenize rest))"
  by (simp add: json_whitespace_def)

lemma lex_numeric:
  "c = 45 \<or> is_digit c \<Longrightarrow>
   tokenize (c # cs) =
     (case lex_number (c # cs) of
        None \<Rightarrow> None
      | Some (x, rest) \<Rightarrow> map_option ((#) (Lit (JNum x))) (tokenize rest))"
  by (auto simp: json_whitespace_def is_digit_def)

declare tokenize.simps [simp del]

lemma lex_QuoteJSONString:
  "tokenize (QuoteJSONString s @ rest) = map_option ((#) (Lit (JStr s))) (tokenize rest)"
  by (simp add: QuoteJSONString_def lex_quote lex_string_quote_body)

lemma Number_toString_cons:
  assumes "\<bar>n\<bar> \<le> 2 ^ 53"
  shows "\<exists>c cs. Number_toString n = c # cs \<and> (c = 45 \<or> is_digit c)"
proof (cases "n < 0")
  case True
  then show ?thesis by (simp add: Number_toString_digits [OF assms])
next
  case False
  obtain d ds where "digits (nat n) = d # ds"
    using digits_nonempty [of "nat n"] by (cases "digits (nat n)") auto
  with digits_all [of "nat n"] False show ?thesis
    by (simp add: Number_toString_digits [OF assms])
qed

lemma lex_Number_toString:
  assumes "ends_number rest" and "\<bar>n\<bar> \<le> 2 ^ 53"
  shows "tokenize (Number_toString n @ rest)
           = map_option ((#) (Lit (JNum (Num (of_int n))))) (tokenize rest)"
proof -
  obtain c cs where c: "Number_toString n = c # cs" "c = 45 \<or> is_digit c"
    using Number_toString_cons [OF assms(2)] by blast
  have "tokenize (c # cs @ rest) =
      (case lex_number (c # cs @ rest) of
         None \<Rightarrow> None
       | Some (x, r) \<Rightarrow> map_option ((#) (Lit (JNum x))) (tokenize r))"
    by (rule lex_numeric [OF c(2)])
  moreover have "lex_number (c # cs @ rest) = Some (Num (of_int n), rest)"
    using lex_number_toString [OF assms, of] by (simp add: c(1))
  ultimately show ?thesis
    by (simp add: c(1))
qed

lemma lex_token_payload:
  assumes "\<bar>userId\<bar> \<le> 2 ^ 53" and "\<bar>ex\<bar> \<le> 2 ^ 53"
  shows "tokenize (token_payload userId em ex) =
     Some [LBrace, Lit (JStr (js ''userId'')), Colon, Lit (JNum (Num (of_int userId))),
           Comma, Lit (JStr (js ''email'')), Colon, Lit (JStr em), Comma,
           Lit (JStr (js ''exp'')), Colon, Lit (JNum (Num (of_int ex))), RBrace]"
proof -
  have e1: "ends_number (44 # cs)" and e2: "ends_number [125]" for cs
    by (simp_all add: ends_number_def is_digit_def)
  have "tokenize [] = Some []"
    by (simp add: tokenize.simps)
  then show ?thesis
    by (simp add: token_payload_def stringify_object_def lex_structural
        lex_QuoteJSONString lex_Number_toString [OF e1 assms(1)]
        lex_Number_toString [OF e2 assms(2)])
qed

lemma JSON_parse_token_payload:
  "\<bar>userId\<bar> \<le> 2 ^ 53 \<Longrightarrow> \<bar>ex\<bar> \<le> 2 ^ 53 \<Longrightarrow>
   JSON_parse (token_payload userId em ex) =
     Some (JObj [(js ''userId'', JNum (Num (of_int userId))), (js ''email'', JStr em),
                 (js ''exp'', JNum (Num (of_int ex)))])"
  by (simp add: JSON_parse_def lex_token_payload step_def open_value_def member_key_def
      after_value_def js_def)

text \<open>
  Whatever the encoder returns decodes to the record that was written, for an id and an
  expiry of magnitude at most \<open>2\<^sup>5\<^sup>3\<close>, as every id and expiry of this code is.
\<close>

lemma decode_token:
  "btoa (token_payload userId em ex) = Some t \<Longrightarrow> \<bar>userId\<bar> \<le> 2 ^ 53 \<Longrightarrow> \<bar>ex\<bar> \<le> 2 ^ 53 \<Longrightarrow>
     decode t =
       Some (JObj [(js ''userId'', JNum (Num (of_int userId))), (js ''email'', JStr em),
                   (js ''exp'', JNum (Num (of_int ex)))])"
  by (simp add: decode_def atob_btoa JSON_parse_token_payload)

section \<open>The token codec\<close>

text \<open>
  The payload is Latin-1 exactly when the quoted email is; then \<^verbatim>\<open>btoa\<close> returns,
  and the token decodes to the object that was written.
\<close>

lemma decode_empty: "decode [] = None"
  by (simp add: decode_def atob_def strip_padding_def JSON_parse_def tokenize.simps)

lemma digits_latin1: "list_all (\<lambda>c. c \<le> 255) (digits n)"
proof -
  have "is_digit c \<Longrightarrow> c \<le> 255" for c
    by (simp add: is_digit_def)
  with digits_all [of n] show ?thesis
    by (auto simp: list_all_iff)
qed

lemma exponent_form_latin1: "list_all (\<lambda>c. c \<le> 255) (exponent_form v)"
proof -
  define sig where "sig = rev (dropWhile (\<lambda>c. c = 48) (rev (digits v)))"
  have "set sig \<subseteq> set (digits v)"
    using set_dropWhileD [of _ "\<lambda>c. c = 48" "rev (digits v)"] by (auto simp: sig_def)
  with digits_latin1 [of v] have sig: "list_all (\<lambda>c. c \<le> 255) sig"
    unfolding list_all_iff by blast
  have e: "exponent_form v =
      (case sig of
         [] \<Rightarrow> [48]
       | d # ds \<Rightarrow>
           d # (if ds = [] then [] else 46 # ds) @ [101, 43] @ digits (length (digits v) - 1))"
    by (simp only: exponent_form_def sig_def)
  show ?thesis
  proof (cases sig)
    case Nil
    then show ?thesis by (simp add: e)
  next
    case (Cons d ds)
    with sig have "d \<le> 255" "list_all (\<lambda>c. c \<le> 255) ds" by simp_all
    with Cons show ?thesis
      by (simp add: e digits_latin1)
  qed
qed

lemma unsigned_toString_latin1: "list_all (\<lambda>c. c \<le> 255) (unsigned_toString m)"
  by (simp add: unsigned_toString_def Let_def digits_latin1 exponent_form_latin1)

lemma Number_toString_latin1: "list_all (\<lambda>c. c \<le> 255) (Number_toString n)"
  by (simp add: Number_toString_def unsigned_toString_latin1 js_def split: jsnumber.splits)

lemma hex_digit_latin1: "hex_digit (v mod 16) \<le> 255"
proof -
  have "v mod 16 < 16" by simp
  then have "87 + v mod 16 \<le> 255" by linarith
  then show ?thesis
    unfolding hex_digit_def by simp
qed

lemma unicode_escape_latin1: "list_all (\<lambda>c. c \<le> 255) (unicode_escape c)"
  by (simp add: unicode_escape_def hex_digit_latin1)

lemma quote_unit_latin1: "c \<le> 255 \<Longrightarrow> list_all (\<lambda>c. c \<le> 255) (quote_unit c)"
  by (simp add: quote_unit_def unicode_escape_latin1)

lemma quote_body_latin1:
  "list_all (\<lambda>c. c \<le> 255) s \<Longrightarrow> list_all (\<lambda>c. c \<le> 255) (quote_body s)"
proof (induction s rule: quote_body.induct)
  case 1
  show ?case by simp
next
  case (2 c)
  then show ?case by (simp add: quote_unit_latin1)
next
  case (3 c d cs)
  from "3.prems" have "\<not> leading_surrogate c"
    by (simp add: leading_surrogate_def)
  with 3 show ?case
    by (simp add: quote_unit_latin1)
qed

lemma token_payload_latin1:
  "list_all (\<lambda>c. c \<le> 255) (token_payload userId em ex)
     \<longleftrightarrow> list_all (\<lambda>c. c \<le> 255) (quote_body em)"
proof -
  have k: "list_all (\<lambda>c. c \<le> 255) (quote_body (js ''userId''))"
    "list_all (\<lambda>c. c \<le> 255) (quote_body (js ''email''))"
    "list_all (\<lambda>c. c \<le> 255) (quote_body (js ''exp''))"
    by (rule quote_body_latin1, simp add: js_def)+
  show ?thesis
    by (simp add: token_payload_def stringify_object_def QuoteJSONString_def
        Number_toString_latin1 k)
qed

lemma btoa_token_payload:
  "list_all (\<lambda>c. c \<le> 255) em \<Longrightarrow>
     btoa (token_payload userId em ex) = Some (base64 (token_payload userId em ex))"
  by (simp add: btoa_def token_payload_latin1 quote_body_latin1)

lemma btoa_token_payload_None:
  "btoa (token_payload userId em ex) = None
     \<longleftrightarrow> \<not> list_all (\<lambda>c. c \<le> 255) (quote_body em)"
  by (simp add: btoa_def token_payload_latin1)

lemma decode_issued:
  "list_all (\<lambda>c. c \<le> 255) em \<Longrightarrow> \<bar>userId\<bar> \<le> 2 ^ 53 \<Longrightarrow> \<bar>ex\<bar> \<le> 2 ^ 53 \<Longrightarrow>
     decode (base64 (token_payload userId em ex)) =
       Some (JObj [(js ''userId'', JNum (Num (of_int userId))), (js ''email'', JStr em),
                   (js ''exp'', JNum (Num (of_int ex)))])"
  by (rule decode_token [OF btoa_token_payload])

lemma property_payload:
  "property (JObj [(js ''userId'', JNum u), (js ''email'', JStr em), (js ''exp'', JNum e)])
     (js ''exp'') = Some (JNum e)"
  "property (JObj [(js ''userId'', JNum u), (js ''email'', JStr em), (js ''exp'', JNum e)])
     (js ''userId'') = Some (JNum u)"
  "property (JObj [(js ''userId'', JNum u), (js ''email'', JStr em), (js ''exp'', JNum e)])
     (js ''email'') = Some (JStr em)"
  by (simp_all add: js_def)

lemma demo_latin1: "list_all (\<lambda>c. c \<le> 255) (js ''demo@example.com'')"
  by (simp add: js_def)

lemma decode_issued_demo:
  "\<bar>ex\<bar> \<le> 2 ^ 53 \<Longrightarrow>
   decode (issued ex) =
     Some (JObj [(js ''userId'', JNum (Num 1)), (js ''email'', JStr (js ''demo@example.com'')),
                 (js ''exp'', JNum (Num (of_int ex)))])"
  using decode_issued [OF demo_latin1, of 1 ex] by (simp add: issued_def)

lemma property_JNull: "property d k = Some v \<Longrightarrow> d \<noteq> JNull"
  by (cases d) simp_all

lemma decode_nonempty: "decode t = Some d \<Longrightarrow> t \<noteq> []"
  using decode_empty by auto

lemma decode_garbage: "decode (js ''garbage!'') = None"
  by (simp add: decode_def atob_def strip_padding_def js_def ascii_whitespace_def b64_index_def)

lemma garbage_nonempty: "js ''garbage!'' \<noteq> []"
  by (simp add: js_def)

text \<open>
  \<^verbatim>\<open>atob\<close> is forgiving: the base64 of \<^verbatim>\<open>null\<close> decodes without its padding.
\<close>

lemma decode_unpadded: "decode (js ''bnVsbA'') = Some JNull"
proof -
  have a: "atob (js ''bnVsbA'') = Some (js ''null'')"
    by (simp add: atob_def strip_padding_def js_def ascii_whitespace_def b64_index_def)
  have p: "JSON_parse (js ''null'') = Some JNull"
    by (simp add: JSON_parse_def js_def tokenize.simps json_whitespace_def is_digit_def step_def
        open_value_def)
  show ?thesis
    by (simp add: decode_def a p)
qed

text \<open>
  The token \<^verbatim>\<open>bnVsbA==\<close> is the base64 of the JSON text \<^verbatim>\<open>null\<close>, and
  \<^verbatim>\<open>e30=\<close> that of \<^verbatim>\<open>{}\<close>, an object without an \<^verbatim>\<open>exp\<close>.
\<close>

lemma decode_null: "decode (js ''bnVsbA=='') = Some JNull"
proof -
  have a: "atob (js ''bnVsbA=='') = Some (js ''null'')"
    by (simp add: atob_def strip_padding_def js_def ascii_whitespace_def b64_index_def)
  have p: "JSON_parse (js ''null'') = Some JNull"
    by (simp add: JSON_parse_def js_def tokenize.simps json_whitespace_def is_digit_def step_def
        open_value_def)
  show ?thesis
    by (simp add: decode_def a p)
qed

lemma null_token_nonempty: "js ''bnVsbA=='' \<noteq> []"
  by (simp add: js_def)

lemma decode_empty_object: "decode (js ''e30='') = Some (JObj [])"
proof -
  have a: "atob (js ''e30='') = Some [123, 125]"
    by (simp add: atob_def strip_padding_def js_def ascii_whitespace_def b64_index_def)
  have p: "JSON_parse [123, 125] = Some (JObj [])"
    by (simp add: JSON_parse_def tokenize.simps json_whitespace_def step_def open_value_def)
  show ?thesis
    by (simp add: decode_def a p)
qed

text \<open>
  C8 (the code at the failing input). For the subject id 1, the email U+540D followed by
  \<^verbatim>\<open>@x.y\<close> and the expiry 1700086400000, the encoder produces no token to decode:
  \<^verbatim>\<open>JSON.stringify\<close> leaves U+540D as it is, and \<^verbatim>\<open>btoa\<close> throws on a code unit
  above 255. With the seeded identity's email in its place the encoder returns a token,
  and decoding that token gives back the same subject id, email and expiry.
\<close>

theorem token_encoder_throws:
  "btoa (token_payload 1 [21517, 64, 120, 46, 121] 1700086400000) = None
   \<and> btoa (token_payload 1 (js ''demo@example.com'') 1700086400000)
       = Some (issued 1700086400000)
   \<and> decode (issued 1700086400000) =
       Some (JObj [(js ''userId'', JNum (Num 1)), (js ''email'', JStr (js ''demo@example.com'')),
                   (js ''exp'', JNum (Num 1700086400000))])"
proof -
  have "btoa (token_payload 1 [21517, 64, 120, 46, 121] 1700086400000) = None"
    by (simp add: btoa_def token_payload_latin1 leading_surrogate_def trailing_surrogate_def
        quote_unit_def)
  moreover have "btoa (token_payload 1 (js ''demo@example.com'') 1700086400000)
                   = Some (issued 1700086400000)"
    using btoa_token_payload [OF demo_latin1] by (simp add: issued_def)
  moreover have "decode (issued 1700086400000) =
       Some (JObj [(js ''userId'', JNum (Num 1)), (js ''email'', JStr (js ''demo@example.com'')),
                   (js ''exp'', JNum (Num 1700086400000))])"
    using decode_issued_demo [of 1700086400000] by simp
  ultimately show ?thesis by simp
qed

section \<open>The auth service\<close>

subsection \<open>register\<close>

lemma find_None_email:
  "find (\<lambda>u. email u = e) users = None \<longleftrightarrow> (\<forall>u \<in> set users. email u \<noteq> e)"
  by (auto simp: find_None_iff)

lemma find_Some_set: "find P xs = Some x \<Longrightarrow> x \<in> set xs \<and> P x"
  by (induction xs) (auto split: if_splits)

text \<open>
  C5. \<^verbatim>\<open>register\<close> fails with the duplicate-email error exactly when the store holds an
  identity with the candidate's email, and then leaves the store as it is. Otherwise it
  appends one identity, made of the candidate's username, email and password, the clock
  reading as id and the creation instant, and returns that identity without its password.
  After a successful registration, a second one with the same email fails.
\<close>

theorem register_duplicate_email:
  "(fst (authAPI_register t_id t_created c users) = Failure DuplicateEmail
      \<longleftrightarrow> (\<exists>u \<in> set users. email u = email c))
   \<and> ((\<exists>u \<in> set users. email u = email c) \<longrightarrow>
        authAPI_register t_id t_created c users = (Failure DuplicateEmail, users))
   \<and> ((\<forall>u \<in> set users. email u \<noteq> email c) \<longrightarrow>
        authAPI_register t_id t_created c users =
          (Success \<lparr>wp_ident = t_id, wp_username = username c, wp_email = email c,
                    wp_createdAt = Some t_created\<rparr>,
           users @ [\<lparr>email = email c, password = password c, username = username c,
                     ident = t_id, createdAt = Some t_created\<rparr>]))
   \<and> ((\<forall>u \<in> set users. email u \<noteq> email c) \<and> email c' = email c \<longrightarrow>
        fst (authAPI_register t_id' t_created' c'
               (snd (authAPI_register t_id t_created c users))) = Failure DuplicateEmail)"
proof -
  let ?new = "\<lparr>email = email c, password = password c, username = username c,
               ident = t_id, createdAt = Some t_created\<rparr>"
  have dup: "authAPI_register t_id t_created c users = (Failure DuplicateEmail, users)"
    if "\<exists>u \<in> set users. email u = email c"
  proof -
    from that have "find (\<lambda>u. email u = email c) users \<noteq> None"
      by (simp add: find_None_email)
    then show ?thesis
      by (auto simp: authAPI_register_def)
  qed
  have fresh: "authAPI_register t_id t_created c users =
                 (Success (without_password ?new), users @ [?new])"
    if "\<forall>u \<in> set users. email u \<noteq> email c"
  proof -
    from that have "find (\<lambda>u. email u = email c) users = None"
      by (simp add: find_None_email)
    then show ?thesis
      by (simp add: authAPI_register_def Let_def)
  qed
  have again: "fst (authAPI_register t_id' t_created' c'
                 (snd (authAPI_register t_id t_created c users))) = Failure DuplicateEmail"
    if "\<forall>u \<in> set users. email u \<noteq> email c" and "email c' = email c"
  proof -
    have "find (\<lambda>u. email u = email c') (users @ [?new]) \<noteq> None"
      using that(2) by (simp add: find_None_email)
    then show ?thesis
      using fresh [OF that(1)] by (auto simp: authAPI_register_def)
  qed
  have iff: "fst (authAPI_register t_id t_created c users) = Failure DuplicateEmail
               \<longleftrightarrow> (\<exists>u \<in> set users. email u = email c)"
  proof (cases "\<exists>u \<in> set users. email u = email c")
    case True
    then show ?thesis using dup by simp
  next
    case False
    then have "\<forall>u \<in> set users. email u \<noteq> email c" by blast
    from fresh [OF this] False show ?thesis by simp
  qed
  show ?thesis
    using iff dup fresh again by (simp add: without_password_def)
qed

theorem register_duplicate_email_witness:
  "authAPI_register 1700000000000 1700000000001
     \<lparr>email = js ''ann@example.com'', password = js ''secret1'', username = js ''ann''\<rparr>
     mockUsers =
     (Success \<lparr>wp_ident = 1700000000000, wp_username = js ''ann'',
               wp_email = js ''ann@example.com'', wp_createdAt = Some 1700000000001\<rparr>,
      mockUsers @ [\<lparr>email = js ''ann@example.com'', password = js ''secret1'',
                    username = js ''ann'', ident = 1700000000000,
                    createdAt = Some 1700000000001\<rparr>])
   \<and> fst (authAPI_register 1700000005000 1700000005000
            \<lparr>email = js ''ann@example.com'', password = js ''other99'', username = js ''bob''\<rparr>
            (snd (authAPI_register 1700000000000 1700000000001
               \<lparr>email = js ''ann@example.com'', password = js ''secret1'',
                username = js ''ann''\<rparr> mockUsers))) = Failure DuplicateEmail
   \<and> authAPI_register 1700000000000 1700000000001
        \<lparr>email = js ''demo@example.com'', password = js ''x'', username = js ''d2''\<rparr>
        mockUsers = (Failure DuplicateEmail, mockUsers)"
proof -
  let ?ann = "\<lparr>email = js ''ann@example.com'', password = js ''secret1'',
               username = js ''ann''\<rparr>"
  let ?bob = "\<lparr>email = js ''ann@example.com'', password = js ''other99'',
               username = js ''bob''\<rparr>"
  let ?demo2 = "\<lparr>email = js ''demo@example.com'', password = js ''x'',
                 username = js ''d2''\<rparr>"
  have fresh: "\<forall>u \<in> set mockUsers. email u \<noteq> email ?ann"
    by (simp add: mockUsers_def js_def)
  have same: "email ?bob = email ?ann"
    by simp
  have taken: "\<exists>u \<in> set mockUsers. email u = email ?demo2"
    by (simp add: mockUsers_def)
  note ann = register_duplicate_email [of 1700000000000 1700000000001 ?ann mockUsers
      ?bob 1700000005000 1700000005000]
  note demo2 = register_duplicate_email [of 1700000000000 1700000000001 ?demo2 mockUsers
      ?bob 0 0]
  have first: "authAPI_register 1700000000000 1700000000001 ?ann mockUsers =
      (Success \<lparr>wp_ident = 1700000000000, wp_username = js ''ann'',
                wp_email = js ''ann@example.com'', wp_createdAt = Some 1700000000001\<rparr>,
       mockUsers @ [\<lparr>email = js ''ann@example.com'', password = js ''secret1'',
                     username = js ''ann'', ident = 1700000000000,
                     createdAt = Some 1700000000001\<rparr>])"
    using ann fresh by simp
  have second: "fst (authAPI_register 1700000005000 1700000005000 ?bob
      (snd (authAPI_register 1700000000000 1700000000001 ?ann mockUsers)))
      = Failure DuplicateEmail"
    using ann fresh same by blast
  have third: "authAPI_register 1700000000000 1700000000001 ?demo2 mockUsers =
      (Failure DuplicateEmail, mockUsers)"
    using demo2 taken by blast
  show ?thesis
    using first second third by simp
qed

subsection \<open>login\<close>

text \<open>
  What \<^verbatim>\<open>login\<close> does: it fails with the invalid-credentials error exactly when no
  stored identity has both the email and the password; for a match whose email is
  Latin-1 it succeeds with a token that expires 24 hours after the clock reading and
  with the identity without its password; the seeded identity logs in.
\<close>

lemma login_invalid_credentials:
  "authAPI_login now users c = Failure InvalidCredentials \<longleftrightarrow>
     \<not> (\<exists>u \<in> set users. email u = email c \<and> password u = password c)"
proof (cases "find (\<lambda>u. email u = email c \<and> password u = password c) users")
  case None
  then have "\<not> (\<exists>u \<in> set users. email u = email c \<and> password u = password c)"
    by (simp add: find_None_iff)
  with None show ?thesis
    by (simp add: authAPI_login_def)
next
  case (Some u)
  then have "\<exists>u \<in> set users. email u = email c \<and> password u = password c"
    using find_Some_set [of "\<lambda>u. email u = email c \<and> password u = password c" users u]
    by blast
  with Some show ?thesis
    by (simp add: authAPI_login_def split: option.splits)
qed

lemma login_success:
  assumes "find (\<lambda>u. email u = email c \<and> password u = password c) users = Some u"
    and "list_all (\<lambda>c. c \<le> 255) (email u)"
  shows "authAPI_login now users c =
           Success \<lparr>result_token =
                      base64 (token_payload (ident u) (email u) (now + 86400000)),
                    result_user = without_password u\<rparr>"
  using assms
  by (simp add: authAPI_login_def btoa_token_payload)

lemma login_token:
  assumes "list_all (\<lambda>c. c \<le> 255) (email u)"
    and "\<bar>ident u\<bar> \<le> 2 ^ 53" and "\<bar>now + 86400000\<bar> \<le> 2 ^ 53"
  shows "decode (base64 (token_payload (ident u) (email u) (now + 86400000))) =
           Some (JObj [(js ''userId'', JNum (Num (of_int (ident u)))),
                       (js ''email'', JStr (email u)),
                       (js ''exp'', JNum (Num (of_int (now + 86400000))))])"
  using assms by (rule decode_issued)

lemma login_rejected:
  assumes "find (\<lambda>u. email u = email c \<and> password u = password c) users = Some u"
    and "\<not> list_all (\<lambda>c. c \<le> 255) (quote_body (email u))"
  shows "authAPI_login now users c = Rejected InvalidCharacterError"
  using assms
  by (simp add: authAPI_login_def btoa_def token_payload_latin1)

lemma login_demo:
  "authAPI_login now mockUsers \<lparr>email = js ''demo@example.com'', password = js ''demo123''\<rparr>
     = Success \<lparr>result_token = issued (now + 86400000),
                result_user = \<lparr>wp_ident = 1, wp_username = js ''demo'',
                               wp_email = js ''demo@example.com'', wp_createdAt = None\<rparr>\<rparr>"
proof -
  let ?c = "\<lparr>email = js ''demo@example.com'', password = js ''demo123''\<rparr>"
  have "find (\<lambda>u. email u = email ?c \<and> password u = password ?c) mockUsers
          = Some (hd mockUsers)"
    by (simp add: mockUsers_def)
  moreover have "list_all (\<lambda>c. c \<le> 255) (email (hd mockUsers))"
    by (simp add: mockUsers_def demo_latin1)
  ultimately have "authAPI_login now mockUsers ?c =
      Success \<lparr>result_token =
                 base64 (token_payload (ident (hd mockUsers)) (email (hd mockUsers))
                           (now + 86400000)),
               result_user = without_password (hd mockUsers)\<rparr>"
    by (rule login_success)
  then show ?thesis
    by (simp add: mockUsers_def without_password_def issued_def)
qed

text \<open>
  C4 (the code at the failing input). An identity registered with the email U+540D
  \<^verbatim>\<open>@x.y\<close> is stored, and \<^verbatim>\<open>login\<close> with its email and password finds it; the
  call then neither fails with the invalid-credentials error nor succeeds: \<^verbatim>\<open>btoa\<close>
  throws and the promise is rejected.
\<close>

theorem login_rejects_registered_identity:
  "authAPI_register 1700000000000 1700000000001
     \<lparr>email = [21517, 64, 120, 46, 121], password = js ''secret1'', username = js ''mei''\<rparr>
     mockUsers
     = (Success \<lparr>wp_ident = 1700000000000, wp_username = js ''mei'',
                 wp_email = [21517, 64, 120, 46, 121], wp_createdAt = Some 1700000000001\<rparr>,
        mockUsers @ [\<lparr>email = [21517, 64, 120, 46, 121], password = js ''secret1'',
                      username = js ''mei'', ident = 1700000000000,
                      createdAt = Some 1700000000001\<rparr>])
   \<and> authAPI_login 1700000005000
       (mockUsers @ [\<lparr>email = [21517, 64, 120, 46, 121], password = js ''secret1'',
                      username = js ''mei'', ident = 1700000000000,
                      createdAt = Some 1700000000001\<rparr>])
       \<lparr>email = [21517, 64, 120, 46, 121], password = js ''secret1''\<rparr>
     = Rejected InvalidCharacterError"
proof -
  let ?mei = "\<lparr>email = [21517, 64, 120, 46, 121], password = js ''secret1'',
               username = js ''mei'', ident = 1700000000000,
               createdAt = Some 1700000000001\<rparr>"
  let ?c = "\<lparr>email = [21517, 64, 120, 46, 121], password = js ''secret1''\<rparr>"
  have r: "authAPI_register 1700000000000 1700000000001
     \<lparr>email = [21517, 64, 120, 46, 121], password = js ''secret1'', username = js ''mei''\<rparr>
     mockUsers = (Success (without_password ?mei), mockUsers @ [?mei])"
    by (simp add: authAPI_register_def mockUsers_def js_def Let_def)
  have f: "find (\<lambda>u. email u = email ?c \<and> password u = password ?c) (mockUsers @ [?mei])
             = Some ?mei"
    by (simp add: mockUsers_def js_def)
  have n: "\<not> list_all (\<lambda>c. c \<le> 255) (quote_body (email ?mei))"
    by (simp add: leading_surrogate_def trailing_surrogate_def quote_unit_def)
  have "authAPI_login 1700000005000 (mockUsers @ [?mei]) ?c = Rejected InvalidCharacterError"
    by (rule login_rejected [OF f n])
  with r show ?thesis
    by (simp add: without_password_def)
qed

subsection \<open>verifyToken\<close>

lemma verifyToken_unfold:
  "authAPI_verifyToken conv now users t =
     (case decode t of
        None \<Rightarrow> Failure TokenInvalid
      | Some d \<Rightarrow>
          if d = JNull then Failure TokenInvalid
          else
            (case ToNumber conv (property d (js ''exp'')) of
               Inl e \<Rightarrow> Failure TokenInvalid
             | Inr n \<Rightarrow>
                 if less_than_now n now then Failure TokenExpired
                 else
                   (case find (\<lambda>u. strict_equals (ident u) (property d (js ''userId''))) users of
                      None \<Rightarrow> Failure UserNotFound
                    | Some u \<Rightarrow> Success (without_password u))))"
  by (simp add: authAPI_verifyToken_def)

lemma verifyToken_issued_auth:
  "\<bar>ex\<bar> \<le> 2 ^ 53 \<Longrightarrow>
   authAPI_verifyToken conv now users (issued ex) =
     (if ex < now then Failure TokenExpired
      else (case find (\<lambda>u. ident u = 1) users of
              None \<Rightarrow> Failure UserNotFound
            | Some u \<Rightarrow> Success (without_password u)))"
proof -
  assume ex: "\<bar>ex\<bar> \<le> 2 ^ 53"
  have "strict_equals i (Some (JNum (Num 1))) = (i = 1)" for i
    by simp
  then show ?thesis
    by (simp add: verifyToken_unfold decode_issued_demo [OF ex] property_payload
        del: property.simps strict_equals.simps)
qed

text \<open>
  The token \<^verbatim>\<open>bnVsbA==\<close> is the base64 of the JSON text \<^verbatim>\<open>null\<close>: decoding
  succeeds, and the verification fails with the token-invalid error all the same,
  because the read of \<^verbatim>\<open>exp\<close> throws.
\<close>

theorem verifyToken_null_payload_counterexample:
  "decode (js ''bnVsbA=='') = Some JNull
   \<and> authAPI_verifyToken sample_conversion 0 mockUsers (js ''bnVsbA=='') = Failure TokenInvalid"
  by (simp add: decode_null verifyToken_unfold)

text \<open>
  C2 (amended). For every token, \<^verbatim>\<open>verifyToken\<close> fails with the token-invalid error
  exactly when decoding fails, or the decoded value is \<^verbatim>\<open>null\<close>, or the conversion of
  its \<^verbatim>\<open>exp\<close> to a number throws; and it never throws. For every token whose
  \<^verbatim>\<open>exp\<close> is not the current time itself: it fails with the token-expired error
  exactly when the token decodes to a value other than \<^verbatim>\<open>null\<close> whose \<^verbatim>\<open>exp\<close> is
  before the current time, whatever the store holds (the expiry is checked before the
  lookup); it fails with the user-not-found error exactly when the token decodes, its
  \<^verbatim>\<open>exp\<close> is not before the current time and no stored identity has its
  \<^verbatim>\<open>userId\<close> as id; and it returns an identity without its password exactly when
  that identity is the first of the store with that id. What happens to a token whose
  \<^verbatim>\<open>exp\<close> is the current time itself is not part of the statement.
\<close>

theorem verifyToken_outcomes:
  "(authAPI_verifyToken conv now users t = Failure TokenInvalid \<longleftrightarrow>
      decode t = None \<or> decode t = Some JNull
      \<or> (\<exists>d e. decode t = Some d \<and> ToNumber conv (property d (js ''exp'')) = Inl e))
   \<and> authAPI_verifyToken conv now users t \<noteq> Rejected x
   \<and> ((\<forall>d. decode t = Some d \<longrightarrow>
           ToNumber conv (property d (js ''exp'')) \<noteq> Inr (Num (of_int now))) \<longrightarrow>
      (authAPI_verifyToken conv now users t = Failure TokenExpired \<longleftrightarrow>
         (\<exists>d n. decode t = Some d \<and> d \<noteq> JNull
            \<and> ToNumber conv (property d (js ''exp'')) = Inr n \<and> less_than_now n now))
      \<and> (authAPI_verifyToken conv now users t = Failure UserNotFound \<longleftrightarrow>
         (\<exists>d n. decode t = Some d \<and> d \<noteq> JNull
            \<and> ToNumber conv (property d (js ''exp'')) = Inr n \<and> \<not> less_than_now n now
            \<and> \<not> (\<exists>u \<in> set users. strict_equals (ident u) (property d (js ''userId'')))))
      \<and> (authAPI_verifyToken conv now users t = Success v \<longleftrightarrow>
         (\<exists>d n u. decode t = Some d \<and> d \<noteq> JNull
            \<and> ToNumber conv (property d (js ''exp'')) = Inr n \<and> \<not> less_than_now n now
            \<and> find (\<lambda>u. strict_equals (ident u) (property d (js ''userId''))) users = Some u
            \<and> v = without_password u)))"
proof (cases "decode t")
  case None
  then show ?thesis
    by (simp add: verifyToken_unfold)
next
  case (Some d)
  show ?thesis
  proof (cases "d = JNull")
    case True
    with Some show ?thesis
      by (simp add: verifyToken_unfold)
  next
    case notnull: False
    show ?thesis
    proof (cases "ToNumber conv (property d (js ''exp''))")
      case (Inl e)
      with Some notnull show ?thesis
        by (simp add: verifyToken_unfold)
    next
      case (Inr n)
      show ?thesis
      proof (cases "less_than_now n now")
        case True
        with Some notnull Inr show ?thesis
          by (simp add: verifyToken_unfold)
      next
        case False
        let ?P = "\<lambda>u. strict_equals (ident u) (property d (js ''userId''))"
        show ?thesis
        proof (cases "find ?P users")
          case None
          then have "\<not> (\<exists>u \<in> set users. ?P u)"
            by (simp add: find_None_iff)
          with Some notnull Inr False None show ?thesis
            by (simp add: verifyToken_unfold)
        next
          case found: (Some u)
          then have "\<exists>u \<in> set users. ?P u"
            using find_Some_set [of ?P users u] by blast
          with Some notnull Inr False found show ?thesis
            by (auto simp: verifyToken_unfold)
        qed
      qed
    qed
  qed
qed

theorem verifyToken_outcomes_witness:
  "authAPI_verifyToken sample_conversion 6000 mockUsers (issued 5000) = Failure TokenExpired
   \<and> authAPI_verifyToken sample_conversion 4000 [] (issued 5000) = Failure UserNotFound
   \<and> authAPI_verifyToken sample_conversion 4000 mockUsers (issued 5000)
       = Success \<lparr>wp_ident = 1, wp_username = js ''demo'', wp_email = js ''demo@example.com'',
                  wp_createdAt = None\<rparr>
   \<and> authAPI_verifyToken sample_conversion 4000 mockUsers (js ''garbage!'')
       = Failure TokenInvalid"
proof -
  let ?d = "JObj [(js ''userId'', JNum (Num 1)), (js ''email'', JStr (js ''demo@example.com'')),
                  (js ''exp'', JNum (Num 5000))]"
  let ?v = "\<lparr>wp_ident = 1, wp_username = js ''demo'', wp_email = js ''demo@example.com'',
             wp_createdAt = None\<rparr>"
  have d: "decode (issued 5000) = Some ?d"
    using decode_issued_demo [of 5000] by simp
  have n: "?d \<noteq> JNull" by simp
  have e: "ToNumber sample_conversion (property ?d (js ''exp'')) = Inr (Num 5000)"
    by (simp only: property_payload ToNumber.simps)
  have away: "ToNumber sample_conversion (property d' (js ''exp'')) \<noteq> Inr (Num (of_int now))"
    if "decode (issued 5000) = Some d'" and "now \<noteq> 5000" for d' now
  proof -
    from that(1) d have "d' = ?d" by simp
    with e that(2) show ?thesis by simp
  qed
  have b6: "\<forall>d'. decode (issued 5000) = Some d' \<longrightarrow>
      ToNumber sample_conversion (property d' (js ''exp'')) \<noteq> Inr (Num (of_int 6000))"
    using away [of _ 6000] by simp
  have b4: "\<forall>d'. decode (issued 5000) = Some d' \<longrightarrow>
      ToNumber sample_conversion (property d' (js ''exp'')) \<noteq> Inr (Num (of_int 4000))"
    using away [of _ 4000] by simp
  have u: "property ?d (js ''userId'') = Some (JNum (Num 1))"
    by (rule property_payload)
  have f: "find (\<lambda>u. strict_equals (ident u) (property ?d (js ''userId''))) mockUsers
             = Some (hd mockUsers)"
    by (simp only: u) (simp add: mockUsers_def)
  have nobody: "\<not> (\<exists>u \<in> set []. strict_equals (ident u) (property ?d (js ''userId'')))"
    by simp
  have w: "?v = without_password (hd mockUsers)"
    by (simp add: mockUsers_def without_password_def)
  have l6: "less_than_now (Num 5000) 6000" and l4: "\<not> less_than_now (Num 5000) 4000"
    by simp_all
  note late = verifyToken_outcomes [of sample_conversion 6000 mockUsers "issued 5000" TypeError ?v,
      THEN conjunct2, THEN conjunct2, THEN mp, OF b6]
  note empty = verifyToken_outcomes [of sample_conversion 4000 "[]" "issued 5000" TypeError ?v,
      THEN conjunct2, THEN conjunct2, THEN mp, OF b4]
  note early = verifyToken_outcomes [of sample_conversion 4000 mockUsers "issued 5000" TypeError ?v,
      THEN conjunct2, THEN conjunct2, THEN mp, OF b4]
  note garbage = verifyToken_outcomes [of sample_conversion 4000 mockUsers "js ''garbage!''"
      TypeError ?v, THEN conjunct1]
  have "authAPI_verifyToken sample_conversion 6000 mockUsers (issued 5000)
          = Failure TokenExpired"
    by (rule late [THEN conjunct1, THEN iffD2])
      (intro exI [of _ ?d] exI [of _ "Num 5000"] conjI d n e l6)
  moreover have "authAPI_verifyToken sample_conversion 4000 [] (issued 5000)
                   = Failure UserNotFound"
    by (rule empty [THEN conjunct2, THEN conjunct1, THEN iffD2])
      (intro exI [of _ ?d] exI [of _ "Num 5000"] conjI d n e l4 nobody)
  moreover have "authAPI_verifyToken sample_conversion 4000 mockUsers (issued 5000)
                   = Success ?v"
    by (rule early [THEN conjunct2, THEN conjunct2, THEN iffD2])
      (intro exI [of _ ?d] exI [of _ "Num 5000"] exI [of _ "hd mockUsers"] conjI d n e l4 f w)
  moreover have "authAPI_verifyToken sample_conversion 4000 mockUsers (js ''garbage!'')
                   = Failure TokenInvalid"
    by (rule garbage [THEN iffD2]) (rule disjI1, rule decode_garbage)
  ultimately show ?thesis by simp
qed

section \<open>The session state holder\<close>

lemma login_effect:
  "snd (sessionManager_login userData authToken rememberMe s) =
     \<lparr>user = userData, token = authToken, isAuthenticated = True\<rparr>"
  by (simp add: sessionManager_login_def Let_def split: option.splits)

lemma verifyToken_numeric:
  assumes "token s = Some t" and "decode t = Some d"
    and "property d (js ''exp'') = Some (JNum (Num e))"
  shows "sessionManager_verifyToken conv now s =
           (if e < of_int now
            then (Returns False, \<lparr>user = None, token = None, isAuthenticated = False\<rparr>)
            else (Returns True, s))"
  using assms decode_nonempty [OF assms(2)] property_JNull [OF assms(3)]
  by (simp add: sessionManager_verifyToken_def sessionManager_logout_def)

lemma verifyToken_converted:
  assumes "token s = Some t" and "decode t = Some d" and "d \<noteq> JNull"
    and "ToNumber conv (property d (js ''exp'')) = Inr n"
  shows "sessionManager_verifyToken conv now s =
           (if less_than_now n now
            then (Returns False, \<lparr>user = None, token = None, isAuthenticated = False\<rparr>)
            else (Returns True, s))"
  using assms decode_nonempty [OF assms(2)]
  by (simp add: sessionManager_verifyToken_def sessionManager_logout_def)

lemma verifyToken_null:
  "token s = Some t \<Longrightarrow> decode t = Some JNull \<Longrightarrow>
     sessionManager_verifyToken conv now s = (Returns False, s)"
  by (simp add: sessionManager_verifyToken_def)

lemma verifyToken_conversion_throws:
  "token s = Some t \<Longrightarrow> decode t = Some d \<Longrightarrow>
   ToNumber conv (property d (js ''exp'')) = Inl e \<Longrightarrow>
     sessionManager_verifyToken conv now s = (Returns False, s)"
  by (simp add: sessionManager_verifyToken_def)

lemma verifyToken_issued:
  "token s = Some (issued ex) \<Longrightarrow> \<bar>ex\<bar> \<le> 2 ^ 53 \<Longrightarrow>
   sessionManager_verifyToken conv now s =
     (if ex < now
      then (Returns False, \<lparr>user = None, token = None, isAuthenticated = False\<rparr>)
      else (Returns True, s))"
  using verifyToken_numeric [OF _ decode_issued_demo property_payload(1), of s ex conv now]
  by simp

lemma verifyToken_no_token:
  "token s = None \<Longrightarrow> sessionManager_verifyToken conv now s = (Returns False, s)"
  by (simp add: sessionManager_verifyToken_def)

lemma verifyToken_undecodable:
  "token s = Some t \<Longrightarrow> decode t = None \<Longrightarrow>
     sessionManager_verifyToken conv now s = (Returns False, s)"
  by (simp add: sessionManager_verifyToken_def)

lemma verifyToken_cases:
  "snd (sessionManager_verifyToken conv now s) = s
   \<or> snd (sessionManager_verifyToken conv now s) =
       \<lparr>user = None, token = None, isAuthenticated = False\<rparr>"
  by (simp add: sessionManager_verifyToken_def sessionManager_logout_def
      split: option.splits sum.splits)

subsection \<open>login\<close>

text \<open>With \<^verbatim>\<open>null\<close> as user, \<^verbatim>\<open>login\<close> stores both arguments and then throws.\<close>

theorem login_null_user_counterexample:
  "sessionManager_login None (Some (issued 5000)) False currentSession
     = (Throws TypeError,
        \<lparr>user = None, token = Some (issued 5000), isAuthenticated = True\<rparr>)"
  by (simp add: sessionManager_login_def currentSession_def)

text \<open>
  C10 (amended). For every pair of a user and a token, absent or not, \<^verbatim>\<open>login\<close>
  stores both as they are and sets \<^verbatim>\<open>isAuthenticated\<close> to true without checking
  either; \<^verbatim>\<open>rememberMe\<close> has no effect on the result; and the call returns true
  whenever the user is not \<^verbatim>\<open>null\<close>.
\<close>

theorem login_stores_unconditionally:
  "snd (sessionManager_login userData authToken rememberMe s)
     = \<lparr>user = userData, token = authToken, isAuthenticated = True\<rparr>
   \<and> sessionManager_login userData authToken rememberMe s
     = sessionManager_login userData authToken rememberMe' s
   \<and> (userData \<noteq> None \<longrightarrow>
        fst (sessionManager_login userData authToken rememberMe s) = Returns True)"
  by (simp add: sessionManager_login_def Let_def split: option.splits)

theorem login_stores_unconditionally_witness:
  "sessionManager_login (Some demo_user) None True currentSession
     = (Returns True, \<lparr>user = Some demo_user, token = None, isAuthenticated = True\<rparr>)
   \<and> sessionManager_login (Some demo_user) None False currentSession
     = sessionManager_login (Some demo_user) None True currentSession"
proof -
  note l = login_stores_unconditionally [of "Some demo_user" None True currentSession False]
  have n: "Some demo_user \<noteq> None" by simp
  from l n have "fst (sessionManager_login (Some demo_user) None True currentSession)
                   = Returns True"
    by blast
  moreover from l have "snd (sessionManager_login (Some demo_user) None True currentSession)
      = \<lparr>user = Some demo_user, token = None, isAuthenticated = True\<rparr>"
    by blast
  moreover from l have "sessionManager_login (Some demo_user) None False currentSession
      = sessionManager_login (Some demo_user) None True currentSession"
    by simp
  ultimately show ?thesis
    by (simp add: prod_eq_iff)
qed

subsection \<open>The stored flag\<close>

lemma perform_keeps_invariant:
  assumes "passes_both c"
    and "isAuthenticated s \<longleftrightarrow> user s \<noteq> None \<and> token s \<noteq> None"
  shows "isAuthenticated (perform conv s c)
           \<longleftrightarrow> user (perform conv s c) \<noteq> None \<and> token (perform conv s c) \<noteq> None"
proof (cases c)
  case (Login userData authToken rememberMe)
  with assms(1) show ?thesis
    by (simp add: login_effect)
next
  case Logout
  then show ?thesis
    by (simp add: sessionManager_logout_def)
next
  case (UpdateUser updates)
  with assms(2) show ?thesis
    by (simp add: sessionManager_updateUser_def split: option.splits)
next
  case (VerifyToken now)
  with assms(2) verifyToken_cases [of conv now s] show ?thesis
    by auto
next
  case RestoreSession
  with assms(2) show ?thesis
    by (simp add: sessionManager_restoreSession_def)
qed

lemma foldl_keeps_invariant:
  "list_all passes_both cs \<Longrightarrow>
   (isAuthenticated s \<longleftrightarrow> user s \<noteq> None \<and> token s \<noteq> None) \<Longrightarrow>
   (isAuthenticated (foldl (perform conv) s cs)
      \<longleftrightarrow> user (foldl (perform conv) s cs) \<noteq> None \<and> token (foldl (perform conv) s cs) \<noteq> None)"
proof (induction cs arbitrary: s)
  case Nil
  then show ?case by simp
next
  case (Cons c cs)
  from Cons.prems have c: "passes_both c" and cs: "list_all passes_both cs"
    by simp_all
  have "isAuthenticated (perform conv s c)
          \<longleftrightarrow> user (perform conv s c) \<noteq> None \<and> token (perform conv s c) \<noteq> None"
    by (rule perform_keeps_invariant [OF c Cons.prems(2)])
  from Cons.IH [OF cs this] show ?case
    by simp
qed

text \<open>
  After \<^verbatim>\<open>login\<close> with a user and \<^verbatim>\<open>null\<close> as token, the session is authenticated
  and holds no token.
\<close>

theorem session_invariant_counterexample:
  "\<not> (isAuthenticated (after_calls sample_conversion [Login (Some demo_user) None False])
        \<longleftrightarrow> user (after_calls sample_conversion [Login (Some demo_user) None False]) \<noteq> None
            \<and> token (after_calls sample_conversion [Login (Some demo_user) None False]) \<noteq> None)"
  by (simp add: after_calls_def login_effect)

text \<open>
  C1 (amended). In every session reached from the empty one by \<^verbatim>\<open>login\<close>,
  \<^verbatim>\<open>logout\<close>, \<^verbatim>\<open>updateUser\<close>, \<^verbatim>\<open>verifyToken\<close> and \<^verbatim>\<open>restoreSession\<close> calls, in
  which every \<^verbatim>\<open>login\<close> passes a user and a token, \<^verbatim>\<open>isAuthenticated\<close> is true
  exactly when the user and the token are both present.
\<close>

theorem session_invariant:
  "list_all passes_both cs \<Longrightarrow>
     (isAuthenticated (after_calls conv cs)
        \<longleftrightarrow> user (after_calls conv cs) \<noteq> None \<and> token (after_calls conv cs) \<noteq> None)"
  unfolding after_calls_def
  by (rule foldl_keeps_invariant) (simp_all add: currentSession_def)

theorem session_invariant_witness:
  "list_all passes_both
     [RestoreSession, Login (Some demo_user) (Some (issued 5000)) True,
      UpdateUser (Some [(js ''username'', JStr (js ''demo2''))]), VerifyToken 4000]
   \<and> isAuthenticated (after_calls sample_conversion
        [RestoreSession, Login (Some demo_user) (Some (issued 5000)) True,
         UpdateUser (Some [(js ''username'', JStr (js ''demo2''))]), VerifyToken 4000])
   \<and> user (after_calls sample_conversion
        [RestoreSession, Login (Some demo_user) (Some (issued 5000)) True,
         UpdateUser (Some [(js ''username'', JStr (js ''demo2''))]), VerifyToken 4000]) \<noteq> None
   \<and> token (after_calls sample_conversion
        [RestoreSession, Login (Some demo_user) (Some (issued 5000)) True,
         UpdateUser (Some [(js ''username'', JStr (js ''demo2''))]), VerifyToken 4000])
       = Some (issued 5000)"
proof -
  let ?cs = "[RestoreSession, Login (Some demo_user) (Some (issued 5000)) True,
      UpdateUser (Some [(js ''username'', JStr (js ''demo2''))]), VerifyToken 4000]"
  let ?s = "\<lparr>user = Some (spread demo_user (Some [(js ''username'', JStr (js ''demo2''))])),
             token = Some (issued 5000), isAuthenticated = True\<rparr>"
  have p: "list_all passes_both ?cs" by simp
  have v: "sessionManager_verifyToken sample_conversion 4000 ?s = (Returns True, ?s)"
    using verifyToken_issued [of ?s 5000 sample_conversion 4000] by simp
  have s: "after_calls sample_conversion ?cs = ?s"
    by (simp add: after_calls_def sessionManager_restoreSession_def login_effect
        sessionManager_updateUser_def currentSession_def v)
  from session_invariant [OF p, of sample_conversion]
  have "user (after_calls sample_conversion ?cs) \<noteq> None" by (simp add: s)
  with p show ?thesis by (simp add: s)
qed

text \<open>
  The session provider derives its flag from the user and the token, by truthiness: an
  empty token counts as absent.
\<close>

lemma derive_flag:
  "p_isAuthenticated (derive p) \<longleftrightarrow> p_user p \<noteq> None \<and> truthy (p_token p)"
  by (simp add: derive_def)

subsection \<open>verifyToken\<close>

text \<open>
  A session whose token decodes to \<^verbatim>\<open>null\<close>: the token decodes and no expiry has
  passed, and \<^verbatim>\<open>verifyToken\<close> returns false, because the read of \<^verbatim>\<open>exp\<close>
  throws.
\<close>

theorem verifyToken_null_token_counterexample:
  "decode (js ''bnVsbA=='') = Some JNull
   \<and> fst (sessionManager_verifyToken sample_conversion 0
        \<lparr>user = Some demo_user, token = Some (js ''bnVsbA==''), isAuthenticated = True\<rparr>)
     = Returns False"
  by (simp add: decode_null verifyToken_null)

text \<open>
  C6 (amended). For every session whose token decodes to a value other than
  \<^verbatim>\<open>null\<close> whose \<^verbatim>\<open>exp\<close> converts to a number that is not the current time
  itself: if that number is before the current time, \<^verbatim>\<open>verifyToken\<close> clears user,
  token and \<^verbatim>\<open>isAuthenticated\<close>, as \<^verbatim>\<open>logout\<close> does, and returns false; otherwise
  it returns true and leaves the session as it is. With no token it returns false and
  leaves the session as it is. When the token decodes to \<^verbatim>\<open>null\<close>, or the conversion
  of its \<^verbatim>\<open>exp\<close> throws, it returns false. What happens to a token whose \<^verbatim>\<open>exp\<close>
  is the current time itself is not part of the statement.
\<close>

theorem verifyToken_expiry:
  "(token s = Some t \<and> decode t = Some d \<and> d \<noteq> JNull
      \<and> ToNumber conv (property d (js ''exp'')) = Inr n \<and> n \<noteq> Num (of_int now) \<longrightarrow>
        (less_than_now n now \<longrightarrow>
           sessionManager_verifyToken conv now s =
             (Returns False, \<lparr>user = None, token = None, isAuthenticated = False\<rparr>)
           \<and> snd (sessionManager_verifyToken conv now s) = snd (sessionManager_logout s))
        \<and> (\<not> less_than_now n now \<longrightarrow>
             sessionManager_verifyToken conv now s = (Returns True, s)))
   \<and> (token s = None \<longrightarrow> sessionManager_verifyToken conv now s = (Returns False, s))
   \<and> (token s = Some t \<and> decode t = Some d
        \<and> (d = JNull \<or> ToNumber conv (property d (js ''exp'')) = Inl e) \<longrightarrow>
          fst (sessionManager_verifyToken conv now s) = Returns False)"
proof (intro conjI impI)
  assume a: "token s = Some t \<and> decode t = Some d \<and> d \<noteq> JNull
      \<and> ToNumber conv (property d (js ''exp'')) = Inr n \<and> n \<noteq> Num (of_int now)"
    and l: "less_than_now n now"
  from a have "sessionManager_verifyToken conv now s =
      (if less_than_now n now
       then (Returns False, \<lparr>user = None, token = None, isAuthenticated = False\<rparr>)
       else (Returns True, s))"
    by (intro verifyToken_converted) auto
  with l show v: "sessionManager_verifyToken conv now s =
      (Returns False, \<lparr>user = None, token = None, isAuthenticated = False\<rparr>)"
    by simp
  show "snd (sessionManager_verifyToken conv now s) = snd (sessionManager_logout s)"
    by (simp add: v sessionManager_logout_def)
next
  assume a: "token s = Some t \<and> decode t = Some d \<and> d \<noteq> JNull
      \<and> ToNumber conv (property d (js ''exp'')) = Inr n \<and> n \<noteq> Num (of_int now)"
    and l: "\<not> less_than_now n now"
  from a have "sessionManager_verifyToken conv now s =
      (if less_than_now n now
       then (Returns False, \<lparr>user = None, token = None, isAuthenticated = False\<rparr>)
       else (Returns True, s))"
    by (intro verifyToken_converted) auto
  with l show "sessionManager_verifyToken conv now s = (Returns True, s)"
    by simp
next
  assume "token s = None"
  then show "sessionManager_verifyToken conv now s = (Returns False, s)"
    by (rule verifyToken_no_token)
next
  assume a: "token s = Some t \<and> decode t = Some d
      \<and> (d = JNull \<or> ToNumber conv (property d (js ''exp'')) = Inl e)"
  then consider "decode t = Some JNull" | "ToNumber conv (property d (js ''exp'')) = Inl e"
    by blast
  then have "sessionManager_verifyToken conv now s = (Returns False, s)"
  proof cases
    case 1
    with a show ?thesis by (intro verifyToken_null) auto
  next
    case 2
    with a show ?thesis by (intro verifyToken_conversion_throws) auto
  qed
  then show "fst (sessionManager_verifyToken conv now s) = Returns False"
    by simp
qed

theorem verifyToken_expiry_witness:
  "sessionManager_verifyToken sample_conversion 6000
     \<lparr>user = Some demo_user, token = Some (issued 5000), isAuthenticated = True\<rparr>
     = (Returns False, \<lparr>user = None, token = None, isAuthenticated = False\<rparr>)
   \<and> sessionManager_verifyToken sample_conversion 4000
       \<lparr>user = Some demo_user, token = Some (issued 5000), isAuthenticated = True\<rparr>
     = (Returns True,
        \<lparr>user = Some demo_user, token = Some (issued 5000), isAuthenticated = True\<rparr>)
   \<and> sessionManager_verifyToken sample_conversion 4000
       \<lparr>user = Some demo_user, token = Some (js ''e30=''), isAuthenticated = True\<rparr>
     = (Returns True,
        \<lparr>user = Some demo_user, token = Some (js ''e30=''), isAuthenticated = True\<rparr>)
   \<and> sessionManager_verifyToken sample_conversion 4000 currentSession
     = (Returns False, currentSession)
   \<and> fst (sessionManager_verifyToken sample_conversion 4000
        \<lparr>user = Some demo_user, token = Some (js ''bnVsbA==''), isAuthenticated = True\<rparr>)
     = Returns False"
proof -
  let ?s = "\<lparr>user = Some demo_user, token = Some (issued 5000), isAuthenticated = True\<rparr>"
  let ?bare = "\<lparr>user = Some demo_user, token = Some (js ''e30=''), isAuthenticated = True\<rparr>"
  let ?null = "\<lparr>user = Some demo_user, token = Some (js ''bnVsbA==''),
                isAuthenticated = True\<rparr>"
  let ?d = "JObj [(js ''userId'', JNum (Num 1)), (js ''email'', JStr (js ''demo@example.com'')),
                  (js ''exp'', JNum (Num 5000))]"
  have d: "decode (issued 5000) = Some ?d"
    using decode_issued_demo [of 5000] by simp
  have dn: "?d \<noteq> JNull" by simp
  have e: "ToNumber sample_conversion (property ?d (js ''exp'')) = Inr (Num 5000)"
    by (simp only: property_payload ToNumber.simps)
  have t: "token ?s = Some (issued 5000)" by simp
  have tb: "token ?bare = Some (js ''e30='')" by simp
  have tn: "token ?null = Some (js ''bnVsbA=='')" by simp
  have eb: "ToNumber sample_conversion (property (JObj []) (js ''exp'')) = Inr NaN"
    by simp
  have n: "token currentSession = None" by (simp add: currentSession_def)
  have "sessionManager_verifyToken sample_conversion 6000 ?s =
          (Returns False, \<lparr>user = None, token = None, isAuthenticated = False\<rparr>)"
    using verifyToken_expiry [of ?s "issued 5000" ?d sample_conversion "Num 5000" 6000 TypeError]
      t d dn e
    by simp
  moreover have "sessionManager_verifyToken sample_conversion 4000 ?s = (Returns True, ?s)"
    using verifyToken_expiry [of ?s "issued 5000" ?d sample_conversion "Num 5000" 4000 TypeError]
      t d dn e
    by simp
  moreover have "sessionManager_verifyToken sample_conversion 4000 ?bare = (Returns True, ?bare)"
    using verifyToken_expiry [of ?bare "js ''e30=''" "JObj []" sample_conversion NaN 4000
        TypeError] tb decode_empty_object eb
    by simp
  moreover have "sessionManager_verifyToken sample_conversion 4000 currentSession
                   = (Returns False, currentSession)"
    using verifyToken_expiry [of currentSession "issued 5000" ?d sample_conversion "Num 5000"
        4000 TypeError] n
    by simp
  moreover have "fst (sessionManager_verifyToken sample_conversion 4000 ?null) = Returns False"
    using verifyToken_expiry [of ?null "js ''bnVsbA==''" JNull sample_conversion "Num 5000"
        4000 TypeError] tn decode_null
    by simp
  ultimately show ?thesis by simp
qed

text \<open>
  C3 (the code at the failing input). A token whose expiry equals the current time is
  not treated as expired by the auth service's \<^verbatim>\<open>verifyToken\<close>, which returns the
  identity, nor by the session state holder's, which returns true and keeps the session;
  \<^verbatim>\<open>verifyStoredToken\<close> of the session provider treats the same token as expired.
\<close>

theorem expiry_instant_not_expired:
  "authAPI_verifyToken sample_conversion 5000 mockUsers (issued 5000)
     = Success \<lparr>wp_ident = 1, wp_username = js ''demo'', wp_email = js ''demo@example.com'',
                wp_createdAt = None\<rparr>
   \<and> sessionManager_verifyToken sample_conversion 5000
       \<lparr>user = Some demo_user, token = Some (issued 5000), isAuthenticated = True\<rparr>
     = (Returns True,
        \<lparr>user = Some demo_user, token = Some (issued 5000), isAuthenticated = True\<rparr>)
   \<and> verifyStoredToken sample_conversion 5000 (issued 5000) = False"
proof -
  have "verifyStoredToken sample_conversion 5000 (issued 5000) = False"
    using decode_issued_demo [of 5000]
    by (simp add: verifyStoredToken_def property_payload del: property.simps)
  then show ?thesis
    by (simp add: verifyToken_issued_auth verifyToken_issued mockUsers_def
        without_password_def)
qed

text \<open>
  C7 (the code at the failing input). A session that holds a token that does not
  decode: \<^verbatim>\<open>verifyToken\<close> catches the failure and returns false, and leaves
  \<^verbatim>\<open>isAuthenticated\<close> true. The session provider clears the same session when it
  initialises.
\<close>

theorem verifyToken_undecodable_stays_authenticated:
  "decode (js ''garbage!'') = None
   \<and> sessionManager_login (Some demo_user) (Some (js ''garbage!'')) False currentSession
       = (Returns True,
          \<lparr>user = Some demo_user, token = Some (js ''garbage!''), isAuthenticated = True\<rparr>)
   \<and> sessionManager_verifyToken sample_conversion 0
        \<lparr>user = Some demo_user, token = Some (js ''garbage!''), isAuthenticated = True\<rparr>
       = (Returns False,
          \<lparr>user = Some demo_user, token = Some (js ''garbage!''), isAuthenticated = True\<rparr>)
   \<and> initializeSession sample_conversion 0
        \<lparr>p_user = Some demo_user, p_token = Some (js ''garbage!''), p_loading = True,
         p_isAuthenticated = True\<rparr>
       = \<lparr>p_user = None, p_token = None, p_loading = False, p_isAuthenticated = False\<rparr>"
  by (simp add: decode_garbage garbage_nonempty verifyToken_undecodable
      sessionManager_login_def currentSession_def initializeSession_def
      verifyStoredToken_def clearSession_def derive_def truthy_def)

subsection \<open>getSessionDuration\<close>








end
